theory Spec2Isabelle
  imports Main
begin

section \<open>Data model (types.ts)\<close>

text \<open>
  \<^verbatim>\<open>EntryType = 'text' | 'audio'\<close>. A \<^verbatim>\<open>Blob\<close> is its MIME type tag (the empty
  string when unknown, as in the browser) and its bytes. A \<^verbatim>\<open>JournalEntry\<close> has the
  optional field \<^verbatim>\<open>audioBlob\<close>; \<^verbatim>\<open>timestamp\<close> is \<^verbatim>\<open>Date.now()\<close>, integer
  milliseconds since the epoch. The field \<^verbatim>\<open>id\<close> is called \<open>entry_id\<close> here.
\<close>

datatype EntryType = Text | Audio

record Blob =
  blob_type :: string
  blob_bytes :: "nat list"

record JournalEntry =
  entry_id :: string
  type :: EntryType
  content :: string
  audioBlob :: "Blob option"
  timestamp :: int

section \<open>Transcription service (transcribeAudio)\<close>

text \<open>
  What a JavaScript \<^verbatim>\<open>throw\<close> or a rejected promise carries: the \<^verbatim>\<open>Error\<close> object the
  code builds itself (with its message), the rejection of the \<^verbatim>\<open>FileReader\<close>,
  whatever the provider's client threw (an opaque cause), or a failure of the entry store.
\<close>

type_synonym cause = string

datatype store_error = StorageError | NotFoundError

datatype thrown = Error string | ReaderError | ProviderFault cause | StoreFault store_error

record inlineData =
  mimeType :: string
  data :: "string option"

record request =
  model :: string
  inline :: inlineData
  instruction :: string

text \<open>
  Everything the program does to the outside world, in order: constructing the client,
  reading the blob, issuing the request, writing to the console, raising an alert box.
\<close>

datatype effect =
    NewClient string
  | ReadAsDataURL Blob
  | GenerateContent request
  | ConsoleError string thrown
  | Alert string

text \<open>
  The environment of one call: \<^verbatim>\<open>process.env.API_KEY\<close> (possibly undefined), the outcome
  of \<^verbatim>\<open>FileReader.readAsDataURL\<close> (\<open>None\<close> when the reader reports an error, else the
  data URL), and the provider's answer to a request: a fault, or a response whose
  \<^verbatim>\<open>text\<close> may be undefined.
\<close>

record env =
  API_KEY :: "string option"
  readAsDataURL :: "Blob \<Rightarrow> string option"
  generateContent :: "request \<Rightarrow> cause + string option"

text \<open>\<^verbatim>\<open>s.split(',')\<close>: the pieces of \<open>s\<close> between commas (never an empty array).\<close>

fun split_comma :: "string \<Rightarrow> string list" where
  "split_comma [] = [[]]"
| "split_comma (c # cs) =
     (if c = CHR '','' then [] # split_comma cs
      else (case split_comma cs of [] \<Rightarrow> [[c]] | p # ps \<Rightarrow> (c # p) # ps))"

text \<open>
  \<^verbatim>\<open>blobToBase64\<close>: resolves with \<^verbatim>\<open>reader.result.split(',')[1]\<close> (undefined when the
  result has no comma), rejects when the reader fails.
\<close>

definition blobToBase64 :: "env \<Rightarrow> Blob \<Rightarrow> thrown + string option" where
  "blobToBase64 ev blob =
     (case readAsDataURL ev blob of
        None \<Rightarrow> Inl ReaderError
      | Some result \<Rightarrow>
          (case split_comma result of
             _ # base64String # _ \<Rightarrow> Inr (Some base64String)
           | _ \<Rightarrow> Inr None))"

definition prompt :: string where
  "prompt = ''Transcribe the audio exactly as spoken. Do not add any introduction, explanation, or timestamps. If the audio is silent or unintelligible, return an empty string.''"

text \<open>\<^verbatim>\<open>audioBlob.type || 'audio/webm'\<close>: the empty string is falsy.\<close>

definition request_mimeType :: "Blob \<Rightarrow> string" where
  "request_mimeType blob =
     (if blob_type blob = [] then ''audio/webm'' else blob_type blob)"

definition make_request :: "Blob \<Rightarrow> string option \<Rightarrow> request" where
  "make_request blob base64Audio =
     \<lparr>model = ''gemini-2.5-flash'',
      inline = \<lparr>mimeType = request_mimeType blob, data = base64Audio\<rparr>,
      instruction = prompt\<rparr>"

text \<open>
  \<^verbatim>\<open>transcribeAudio\<close> returns the thrown value or the transcript, and the effects it had,
  in order. \<^verbatim>\<open>!process.env.API_KEY\<close> holds for undefined and for the empty string.
  Reading the blob happens outside the \<^verbatim>\<open>try\<close>; the request inside, where a fault is
  logged and thrown again unchanged. \<^verbatim>\<open>response.text || ""\<close> turns undefined into the
  empty string.
\<close>

definition transcribeAudio :: "env \<Rightarrow> Blob \<Rightarrow> (thrown + string) \<times> effect list" where
  "transcribeAudio ev blob =
     (case API_KEY ev of
        None \<Rightarrow> (Inl (Error ''API Key is missing.''), [])
      | Some key \<Rightarrow>
          if key = [] then (Inl (Error ''API Key is missing.''), [])
          else
            (case blobToBase64 ev blob of
               Inl e \<Rightarrow> (Inl e, [NewClient key, ReadAsDataURL blob])
             | Inr base64Audio \<Rightarrow>
                 (let req = make_request blob base64Audio in
                  case generateContent ev req of
                    Inl c \<Rightarrow>
                      (Inl (ProviderFault c),
                       [NewClient key, ReadAsDataURL blob, GenerateContent req,
                        ConsoleError ''Gemini Transcription Error:'' (ProviderFault c)])
                  | Inr response_text \<Rightarrow>
                      (Inr (case response_text of None \<Rightarrow> [] | Some t \<Rightarrow> t),
                       [NewClient key, ReadAsDataURL blob, GenerateContent req]))))"

text \<open>The requests a run issued, read off its effects.\<close>

fun requests_of :: "effect list \<Rightarrow> request list" where
  "requests_of [] = []"
| "requests_of (GenerateContent r # fx) = r # requests_of fx"
| "requests_of (_ # fx) = requests_of fx"

section \<open>Entry store (services/storage)\<close>

text \<open>
  Modelled from the spec: the module \<^verbatim>\<open>services/storage\<close> (\<^verbatim>\<open>saveEntry\<close>,
  \<^verbatim>\<open>getAllEntries\<close>, \<^verbatim>\<open>deleteEntry\<close>) is imported by the application but is not among
  the sources. The spec's EntryStore is a durable mapping from id to entry. The store is
  kept as the list of persisted entries, the latest insert first. \<open>medium_ok\<close> says
  whether the underlying medium works during the call.

  \<open>saveEntry\<close> is the spec's \<^verbatim>\<open>insert\<close>: the id must not exist yet, the entry is
  written whole (scalar fields and attachment together), and a failure of the medium
  gives \<open>StorageError\<close> and writes nothing. The spec names no error for an id that
  exists already; the model refuses it with \<open>StorageError\<close> as well.
\<close>

definition saveEntry ::
  "bool \<Rightarrow> JournalEntry \<Rightarrow> JournalEntry list \<Rightarrow> store_error + JournalEntry list" where
  "saveEntry medium_ok entry store =
     (if \<not> medium_ok \<or> entry_id entry \<in> set (map entry_id store) then Inl StorageError
      else Inr (entry # store))"

text \<open>
  Modelled from the spec: \<open>getAllEntries\<close> is the spec's \<^verbatim>\<open>listAll\<close>, "every persisted
  entry ordered by createdAt descending (most recent first); ties broken by insertion
  order (later insert sorts first)". The sort is stable and the store holds the latest
  insert first, so entries of equal timestamp stay in that order.
\<close>

definition getAllEntries :: "JournalEntry list \<Rightarrow> JournalEntry list" where
  "getAllEntries store = sort_key (\<lambda>e. - timestamp e) store"

text \<open>
  Modelled from the spec: \<open>deleteEntry\<close> is the spec's \<^verbatim>\<open>delete\<close>, which removes the
  entry with its attachment and fails with \<open>NotFoundError\<close> when the id is absent.
\<close>

definition deleteEntry ::
  "bool \<Rightarrow> string \<Rightarrow> JournalEntry list \<Rightarrow> store_error + JournalEntry list" where
  "deleteEntry medium_ok i store =
     (if \<not> medium_ok then Inl StorageError
      else if i \<notin> set (map entry_id store) then Inl NotFoundError
      else Inr (filter (\<lambda>e. entry_id e \<noteq> i) store))"

section \<open>The application component (App)\<close>

text \<open>
  The state of the component (its \<^verbatim>\<open>useState\<close> cells), together with what lies outside
  it: the persisted entries \<open>db\<close> and the effects so far.
\<close>

record app =
  entries :: "JournalEntry list"
  inputText :: string
  isRecordingMode :: bool
  isProcessingAudio :: bool
  isLoading :: bool
  db :: "JournalEntry list"
  effects :: "effect list"

definition initial_app :: app where
  "initial_app =
     \<lparr>entries = [], inputText = [], isRecordingMode = False, isProcessingAudio = False,
      isLoading = True, db = [], effects = []\<rparr>"

text \<open>
  \<^verbatim>\<open>String.prototype.trim\<close> on the ASCII white space and line terminators
  (tab, line feed, vertical tab, form feed, carriage return, space). The characters of
  the model are bytes: white space beyond ASCII, such as the no-break space, which
  \<^verbatim>\<open>trim\<close> strips as well, is not told apart from other text here.
\<close>

definition is_space :: "char \<Rightarrow> bool" where
  "is_space c = (c \<in> set [CHR 0x09, CHR 0x0A, CHR 0x0B, CHR 0x0C, CHR 0x0D, CHR '' ''])"

definition trim :: "string \<Rightarrow> string" where
  "trim s = rev (dropWhile is_space (rev (dropWhile is_space s)))"

text \<open>
  \<^verbatim>\<open>loadEntries\<close>: \<open>load_ok\<close> says whether \<^verbatim>\<open>getAllEntries\<close> resolves; the flag
  \<^verbatim>\<open>isLoading\<close> is cleared in the \<^verbatim>\<open>finally\<close> block either way.
\<close>

definition loadEntries :: "bool \<Rightarrow> app \<Rightarrow> app" where
  "loadEntries load_ok st =
     (if load_ok then st\<lparr>entries := getAllEntries (db st), isLoading := False\<rparr>
      else st\<lparr>isLoading := False,
              effects := effects st @ [ConsoleError ''Failed to load entries'' (StoreFault StorageError)]\<rparr>)"

text \<open>
  \<^verbatim>\<open>handleTextSubmit\<close>: \<open>uuid\<close> is the value of \<^verbatim>\<open>uuidv4()\<close> and \<open>now\<close> that of
  \<^verbatim>\<open>Date.now()\<close> during the call. Blank input returns at once. The entry has no
  \<^verbatim>\<open>audioBlob\<close> property. The list in memory is extended only after \<^verbatim>\<open>saveEntry\<close> has
  resolved.
\<close>

definition text_entry :: "string \<Rightarrow> int \<Rightarrow> string \<Rightarrow> JournalEntry" where
  "text_entry uuid now txt =
     \<lparr>entry_id = uuid, type = Text, content = trim txt, audioBlob = None, timestamp = now\<rparr>"

definition handleTextSubmit :: "string \<Rightarrow> int \<Rightarrow> bool \<Rightarrow> app \<Rightarrow> app" where
  "handleTextSubmit uuid now medium_ok st =
     (if trim (inputText st) = [] then st
      else
        (let newEntry = text_entry uuid now (inputText st) in
         case saveEntry medium_ok newEntry (db st) of
           Inr db' \<Rightarrow> st\<lparr>db := db', entries := newEntry # entries st, inputText := []\<rparr>
         | Inl err \<Rightarrow>
             st\<lparr>effects := effects st @
                    [ConsoleError ''Failed to save text entry'' (StoreFault err),
                     Alert ''Could not save entry.'']\<rparr>))"

text \<open>
  \<^verbatim>\<open>handleAudioComplete\<close>: transcribe, then build and save the entry. Whatever is thrown
  on the way (by the transcription or by the store) reaches the one \<^verbatim>\<open>catch\<close>, which
  logs and alerts; \<^verbatim>\<open>finally\<close> clears \<^verbatim>\<open>isProcessingAudio\<close>.
\<close>

definition audio_entry :: "string \<Rightarrow> int \<Rightarrow> string \<Rightarrow> Blob \<Rightarrow> JournalEntry" where
  "audio_entry uuid now transcription blob =
     \<lparr>entry_id = uuid, type = Audio, content = transcription, audioBlob = Some blob,
      timestamp = now\<rparr>"

definition audio_failed :: "app \<Rightarrow> effect list \<Rightarrow> thrown \<Rightarrow> app" where
  "audio_failed st fx err =
     st\<lparr>isProcessingAudio := False,
        effects := effects st @ fx @
          [ConsoleError ''Failed to process audio entry'' err,
           Alert ''Failed to process audio. Please check your API key or network.'']\<rparr>"

definition handleAudioComplete :: "env \<Rightarrow> string \<Rightarrow> int \<Rightarrow> bool \<Rightarrow> Blob \<Rightarrow> app \<Rightarrow> app" where
  "handleAudioComplete ev uuid now medium_ok blob st =
     (case transcribeAudio ev blob of
        (Inl err, fx) \<Rightarrow> audio_failed st fx err
      | (Inr transcription, fx) \<Rightarrow>
          (let newEntry = audio_entry uuid now transcription blob in
           case saveEntry medium_ok newEntry (db st) of
             Inl err \<Rightarrow> audio_failed st fx (StoreFault err)
           | Inr db' \<Rightarrow>
               st\<lparr>db := db', entries := newEntry # entries st, isRecordingMode := False,
                  isProcessingAudio := False, effects := effects st @ fx\<rparr>))"

text \<open>\<^verbatim>\<open>handleDelete\<close>: \<open>confirmed\<close> is the answer to \<^verbatim>\<open>window.confirm\<close>.\<close>

definition handleDelete :: "bool \<Rightarrow> bool \<Rightarrow> string \<Rightarrow> app \<Rightarrow> app" where
  "handleDelete confirmed medium_ok i st =
     (if confirmed then
        (case deleteEntry medium_ok i (db st) of
           Inr db' \<Rightarrow> st\<lparr>db := db', entries := filter (\<lambda>e. entry_id e \<noteq> i) (entries st)\<rparr>
         | Inl err \<Rightarrow>
             st\<lparr>effects := effects st @ [ConsoleError ''Failed to delete'' (StoreFault err)]\<rparr>)
      else st)"

text \<open>
  What can happen to the component, with what the environment supplies each time, and a
  run of the component over a sequence of such events.
\<close>

datatype app_event =
    LoadEntries bool
  | SetInputText string
  | SetRecordingMode bool
  | TextSubmit string int bool
  | AudioComplete env string int bool Blob
  | Delete bool bool string

fun app_step :: "app \<Rightarrow> app_event \<Rightarrow> app" where
  "app_step st (LoadEntries ok) = loadEntries ok st"
| "app_step st (SetInputText s) = st\<lparr>inputText := s\<rparr>"
| "app_step st (SetRecordingMode b) = st\<lparr>isRecordingMode := b\<rparr>"
| "app_step st (TextSubmit uuid now ok) = handleTextSubmit uuid now ok st"
| "app_step st (AudioComplete ev uuid now ok blob) = handleAudioComplete ev uuid now ok blob st"
| "app_step st (Delete confirmed ok i) = handleDelete confirmed ok i st"

definition app_run :: "app_event list \<Rightarrow> app" where
  "app_run evs = foldl app_step initial_app evs"

text \<open>The invariant of the data model: an attachment exactly on the audio entries.\<close>

definition attachment_ok :: "JournalEntry \<Rightarrow> bool" where
  "attachment_ok e = ((audioBlob e \<noteq> None) = (type e = Audio))"

definition app_inv :: "app \<Rightarrow> bool" where
  "app_inv st = (\<forall>e \<in> set (entries st) \<union> set (db st). attachment_ok e)"

section \<open>Calendar dates (the Date object)\<close>

text \<open>
  The application reads calendar dates off timestamps with \<^verbatim>\<open>new Date(t)\<close>,
  \<^verbatim>\<open>getDate\<close>, \<^verbatim>\<open>setDate\<close>, \<^verbatim>\<open>toDateString\<close> and \<^verbatim>\<open>toLocaleDateString\<close>. These
  belong to the language, and are modelled by the time arithmetic of its standard
  (ECMA-262, Date objects): a time value is an integer number of milliseconds since the
  epoch, a day has 86400000 of them, years follow the proleptic Gregorian calendar.
\<close>

definition msPerDay :: int where
  "msPerDay = 86400000"

definition Day :: "int \<Rightarrow> int" where
  "Day t = t div msPerDay"

definition TimeWithinDay :: "int \<Rightarrow> int" where
  "TimeWithinDay t = t mod msPerDay"

definition DayFromYear :: "int \<Rightarrow> int" where
  "DayFromYear y =
     365 * (y - 1970) + (y - 1969) div 4 - (y - 1901) div 100 + (y - 1601) div 400"

definition DaysInYear :: "int \<Rightarrow> int" where
  "DaysInYear y =
     (if y mod 4 \<noteq> 0 then 365 else if y mod 100 \<noteq> 0 then 366
      else if y mod 400 \<noteq> 0 then 365 else 366)"

text \<open>
  \<open>YearFromTime t\<close> is the largest year that begins on or before the day of \<open>t\<close>: the
  estimate from the mean length of a year is off by one at most, and is corrected.
\<close>

definition YearFromTime :: "int \<Rightarrow> int" where
  "YearFromTime t =
     (let d = Day t; y = 1970 + (d * 400) div 146097
      in if DayFromYear (y + 1) \<le> d then y + 1
         else if d < DayFromYear y then y - 1 else y)"

definition InLeapYear :: "int \<Rightarrow> int" where
  "InLeapYear t = (if DaysInYear (YearFromTime t) = 366 then 1 else 0)"

definition DayWithinYear :: "int \<Rightarrow> int" where
  "DayWithinYear t = Day t - DayFromYear (YearFromTime t)"

text \<open>The day within the year on which month \<open>m\<close> (0 to 11) begins; \<open>leap\<close> is 0 or 1.\<close>

definition month_start :: "int \<Rightarrow> int \<Rightarrow> int" where
  "month_start leap m =
     (if m = 0 then 0 else if m = 1 then 31 else if m = 2 then 59 + leap
      else if m = 3 then 90 + leap else if m = 4 then 120 + leap
      else if m = 5 then 151 + leap else if m = 6 then 181 + leap
      else if m = 7 then 212 + leap else if m = 8 then 243 + leap
      else if m = 9 then 273 + leap else if m = 10 then 304 + leap
      else 334 + leap)"

definition MonthFromTime :: "int \<Rightarrow> int" where
  "MonthFromTime t =
     (let dwy = DayWithinYear t; leap = InLeapYear t
      in if dwy < 31 then 0 else if dwy < 59 + leap then 1
         else if dwy < 90 + leap then 2 else if dwy < 120 + leap then 3
         else if dwy < 151 + leap then 4 else if dwy < 181 + leap then 5
         else if dwy < 212 + leap then 6 else if dwy < 243 + leap then 7
         else if dwy < 273 + leap then 8 else if dwy < 304 + leap then 9
         else if dwy < 334 + leap then 10 else 11)"

definition DateFromTime :: "int \<Rightarrow> int" where
  "DateFromTime t = DayWithinYear t - month_start (InLeapYear t) (MonthFromTime t) + 1"

definition WeekDay :: "int \<Rightarrow> int" where
  "WeekDay t = (Day t + 4) mod 7"

text \<open>
  The time zone of the host: its offset from UTC in milliseconds at each instant
  (\<open>utc_offset\<close>, the standard's local time zone adjustment of a UTC time value), and
  the offset it takes for a local time value (\<open>local_offset\<close>, the adjustment of a local
  time value, which the standard fixes also for wall-clock times that a clock change
  skips or repeats). The offsets may change from instant to instant, as with daylight
  saving time.
\<close>

record zone =
  utc_offset :: "int \<Rightarrow> int"
  local_offset :: "int \<Rightarrow> int"

definition LocalTime :: "zone \<Rightarrow> int \<Rightarrow> int" where
  "LocalTime z t = t + utc_offset z t"

definition UTC :: "zone \<Rightarrow> int \<Rightarrow> int" where
  "UTC z lt = lt - local_offset z lt"

definition MakeDay :: "int \<Rightarrow> int \<Rightarrow> int \<Rightarrow> int" where
  "MakeDay year month date =
     (let ym = year + month div 12; mn = month mod 12
      in DayFromYear ym + month_start (if DaysInYear ym = 366 then 1 else 0) mn + date - 1)"

definition MakeDate :: "int \<Rightarrow> int \<Rightarrow> int" where
  "MakeDate day time = day * msPerDay + time"

definition getDate :: "zone \<Rightarrow> int \<Rightarrow> int" where
  "getDate z t = DateFromTime (LocalTime z t)"

definition setDate :: "zone \<Rightarrow> int \<Rightarrow> int \<Rightarrow> int" where
  "setDate z t dt =
     (let lt = LocalTime z t
      in UTC z (MakeDate (MakeDay (YearFromTime lt) (MonthFromTime lt) dt) (TimeWithinDay lt)))"

text \<open>
  \<^verbatim>\<open>toDateString\<close> prints the weekday, the month, the day of the month and the year of
  the local date ("Tue Mar 05 2024"); the model keeps the four fields the string shows.
\<close>

definition toDateString :: "zone \<Rightarrow> int \<Rightarrow> int \<times> int \<times> int \<times> int" where
  "toDateString z t =
     (let lt = LocalTime z t in (WeekDay lt, MonthFromTime lt, DateFromTime lt, YearFromTime lt))"

text \<open>
  \<^verbatim>\<open>toLocaleDateString(undefined, {weekday: 'long', month: 'long', day: 'numeric'})\<close>
  prints the weekday, the month and the day of the month of the local date in the way of
  the default locale of the browser: \<open>fmt\<close> is that way of printing the three fields.
\<close>

type_synonym formatter = "int \<Rightarrow> int \<Rightarrow> int \<Rightarrow> string"

definition toLocaleDateString :: "formatter \<Rightarrow> zone \<Rightarrow> int \<Rightarrow> string" where
  "toLocaleDateString fmt z t =
     (let lt = LocalTime z t in fmt (WeekDay lt) (MonthFromTime lt) (DateFromTime lt))"

text \<open>The calendar day of a timestamp in the local zone, as a day number.\<close>

definition localDay :: "zone \<Rightarrow> int \<Rightarrow> int" where
  "localDay z t = Day (LocalTime z t)"

text \<open>
  Two properties of a zone whose clock changes never reach across midnight: a wall-clock
  time is taken for an instant of its own calendar day, and a later instant never lies on
  an earlier calendar day.
\<close>

definition wall_clock_day_kept :: "zone \<Rightarrow> bool" where
  "wall_clock_day_kept z = (\<forall>lt. Day (LocalTime z (UTC z lt)) = Day lt)"

definition days_never_go_back :: "zone \<Rightarrow> bool" where
  "days_never_go_back z = (\<forall>t t'. t \<le> t' \<longrightarrow> localDay z t \<le> localDay z t')"

text \<open>A zone of one offset at all times.\<close>

definition fixed_zone :: "int \<Rightarrow> zone" where
  "fixed_zone off = \<lparr>utc_offset = (\<lambda>t. off), local_offset = (\<lambda>lt. off)\<rparr>"

section \<open>Grouping the entries by date (App)\<close>

text \<open>
  The key computed in the callback of \<^verbatim>\<open>groupEntriesByDate\<close> in the zone \<open>z\<close>. The
  callback reads the clock twice: \<open>today\<close> is the value of the first \<^verbatim>\<open>new Date()\<close>,
  \<open>yesterday\<close> that of the second after \<^verbatim>\<open>setDate(getDate() - 1)\<close>.
\<close>

definition groupKey :: "formatter \<Rightarrow> zone \<Rightarrow> int \<Rightarrow> int \<Rightarrow> JournalEntry \<Rightarrow> string" where
  "groupKey fmt z now1 now2 entry =
     (let date = timestamp entry;
          today = now1;
          yesterday = setDate z now2 (getDate z now2 - 1);
          key = toLocaleDateString fmt z date
      in if toDateString z date = toDateString z today then ''Today''
         else if toDateString z date = toDateString z yesterday then ''Yesterday''
         else key)"

text \<open>
  The rest of the callback: the object \<^verbatim>\<open>groups\<close> is a map from keys to arrays;
  \<^verbatim>\<open>!groups[key]\<close> holds exactly when the key is not there yet (an array is truthy).
\<close>

definition group_step ::
  "('a \<Rightarrow> string) \<Rightarrow> (string \<rightharpoonup> 'a list) \<Rightarrow> 'a \<Rightarrow> (string \<rightharpoonup> 'a list)" where
  "group_step keyOf groups entry =
     (let key = keyOf entry
      in case groups key of
           None \<Rightarrow> groups(key \<mapsto> [entry])
         | Some es \<Rightarrow> groups(key \<mapsto> es @ [entry]))"

text \<open>
  The clock of a render: \<open>clock k\<close> is the value of the \<open>k\<close>-th \<^verbatim>\<open>new Date()\<close> since
  the render began, counting from 0. One round of the \<^verbatim>\<open>forEach\<close> takes the next two
  readings; the state of the loop is the object built so far and the number of readings
  taken.
\<close>

definition forEach_step ::
  "formatter \<Rightarrow> zone \<Rightarrow> (nat \<Rightarrow> int) \<Rightarrow> (string \<rightharpoonup> JournalEntry list) \<times> nat \<Rightarrow> JournalEntry
     \<Rightarrow> (string \<rightharpoonup> JournalEntry list) \<times> nat" where
  "forEach_step fmt z clock st entry =
     (case st of (groups, c) \<Rightarrow>
        (group_step (groupKey fmt z (clock c) (clock (Suc c))) groups entry, c + 2))"

definition groupEntriesByDate ::
  "formatter \<Rightarrow> zone \<Rightarrow> (nat \<Rightarrow> int) \<Rightarrow> nat \<Rightarrow> JournalEntry list
     \<Rightarrow> (string \<rightharpoonup> JournalEntry list) \<times> nat" where
  "groupEntriesByDate fmt z clock c es = foldl (forEach_step fmt z clock) (Map.empty, c) es"

text \<open>
  The callback of \<^verbatim>\<open>orderedKeys\<close> computes the key once more, with early returns and
  two readings of the clock of its own.
\<close>

definition orderedKey :: "formatter \<Rightarrow> zone \<Rightarrow> int \<Rightarrow> int \<Rightarrow> JournalEntry \<Rightarrow> string" where
  "orderedKey fmt z now1 now2 entry =
     (let date = timestamp entry;
          today = now1;
          yesterday = setDate z now2 (getDate z now2 - 1)
      in if toDateString z date = toDateString z today then ''Today''
         else if toDateString z date = toDateString z yesterday then ''Yesterday''
         else toLocaleDateString fmt z date)"

text \<open>\<^verbatim>\<open>entries.map\<close> with that callback, from the reading \<open>c\<close> of the clock on.\<close>

fun map_orderedKey ::
  "formatter \<Rightarrow> zone \<Rightarrow> (nat \<Rightarrow> int) \<Rightarrow> nat \<Rightarrow> JournalEntry list \<Rightarrow> string list" where
  "map_orderedKey fmt z clock c [] = []"
| "map_orderedKey fmt z clock c (entry # es) =
     orderedKey fmt z (clock c) (clock (Suc c)) entry # map_orderedKey fmt z clock (c + 2) es"

text \<open>
  \<^verbatim>\<open>Array.from(new Set(xs))\<close>: a \<^verbatim>\<open>Set\<close> keeps its elements in the order in which
  they were first added.
\<close>

definition set_add :: "'a list \<Rightarrow> 'a \<Rightarrow> 'a list" where
  "set_add s x = (if x \<in> set s then s else s @ [x])"

definition from_set :: "'a list \<Rightarrow> 'a list" where
  "from_set xs = foldl set_add [] xs"

definition orderedKeys ::
  "formatter \<Rightarrow> zone \<Rightarrow> (nat \<Rightarrow> int) \<Rightarrow> nat \<Rightarrow> JournalEntry list \<Rightarrow> string list" where
  "orderedKeys fmt z clock c es = from_set (map_orderedKey fmt z clock c es)"

text \<open>
  What is rendered: for each key of \<^verbatim>\<open>orderedKeys\<close>, in order, the key with the entries
  \<^verbatim>\<open>groupedEntries[dateKey]\<close>. Reading a key that the object lacks gives undefined, and
  the call of \<^verbatim>\<open>map\<close> on it throws: the result is then \<open>None\<close>.
\<close>

fun render_groups ::
  "(string \<rightharpoonup> 'a list) \<Rightarrow> string list \<Rightarrow> (string \<times> 'a list) list option" where
  "render_groups groupedEntries [] = Some []"
| "render_groups groupedEntries (dateKey # ks) =
     (case groupedEntries dateKey of
        None \<Rightarrow> None
      | Some es \<Rightarrow>
          (case render_groups groupedEntries ks of
             None \<Rightarrow> None
           | Some gs \<Rightarrow> Some ((dateKey, es) # gs)))"

text \<open>
  One render: \<^verbatim>\<open>groupEntriesByDate(entries)\<close> runs first, from the reading 0 of the
  clock; \<^verbatim>\<open>orderedKeys\<close> is computed next, from the reading at which the first pass
  stopped; then the groups are rendered.
\<close>

definition bucket ::
  "formatter \<Rightarrow> zone \<Rightarrow> (nat \<Rightarrow> int) \<Rightarrow> JournalEntry list
     \<Rightarrow> (string \<times> JournalEntry list) list option" where
  "bucket fmt z clock es =
     (case groupEntriesByDate fmt z clock 0 es of
        (groupedEntries, c) \<Rightarrow> render_groups groupedEntries (orderedKeys fmt z clock c es))"

text \<open>
  The clock stays on one calendar day during a render of \<open>n\<close> entries: each of its
  \<open>4 * n\<close> readings lies on the local day of the first.
\<close>

definition one_day_clock :: "zone \<Rightarrow> (nat \<Rightarrow> int) \<Rightarrow> nat \<Rightarrow> bool" where
  "one_day_clock z clock n = (\<forall>k < 4 * n. localDay z (clock k) = localDay z (clock 0))"

text \<open>The entry sequence is sorted by timestamp, the most recent first.\<close>

definition newest_first :: "JournalEntry list \<Rightarrow> bool" where
  "newest_first es = sorted_wrt (\<lambda>a b. timestamp b \<le> timestamp a) es"

section \<open>A locale: en-US\<close>

text \<open>
  How the en-US locale prints weekday, month and day of the month: "Tuesday, March 5".
  Weekdays count from Sunday = 0, months from January = 0; \<open>decimal\<close> prints a number
  below 100.
\<close>

definition weekday_name :: "int \<Rightarrow> string" where
  "weekday_name w =
     (if w = 0 then ''Sunday'' else if w = 1 then ''Monday'' else if w = 2 then ''Tuesday''
      else if w = 3 then ''Wednesday'' else if w = 4 then ''Thursday''
      else if w = 5 then ''Friday'' else ''Saturday'')"

definition month_name :: "int \<Rightarrow> string" where
  "month_name m =
     (if m = 0 then ''January'' else if m = 1 then ''February'' else if m = 2 then ''March''
      else if m = 3 then ''April'' else if m = 4 then ''May'' else if m = 5 then ''June''
      else if m = 6 then ''July'' else if m = 7 then ''August''
      else if m = 8 then ''September'' else if m = 9 then ''October''
      else if m = 10 then ''November'' else ''December'')"

definition digit :: "int \<Rightarrow> char" where
  "digit k =
     (if k = 0 then CHR ''0'' else if k = 1 then CHR ''1'' else if k = 2 then CHR ''2''
      else if k = 3 then CHR ''3'' else if k = 4 then CHR ''4'' else if k = 5 then CHR ''5''
      else if k = 6 then CHR ''6'' else if k = 7 then CHR ''7'' else if k = 8 then CHR ''8''
      else CHR ''9'')"

definition decimal :: "int \<Rightarrow> string" where
  "decimal d = (if d < 10 then [digit d] else [digit (d div 10), digit (d mod 10)])"

definition en_US :: formatter where
  "en_US w m d = weekday_name w @ '', '' @ month_name m @ '' '' @ decimal d"

text \<open>
  A formatter tells apart the dates of a year when it prints different strings for
  different triples of weekday, month and day of the month.
\<close>

definition separates :: "formatter \<Rightarrow> bool" where
  "separates fmt =
     (\<forall>w m d w' m' d'.
        0 \<le> w \<and> w \<le> 6 \<and> 0 \<le> m \<and> m \<le> 11 \<and> 1 \<le> d \<and> d \<le> 31 \<and>
        0 \<le> w' \<and> w' \<le> 6 \<and> 0 \<le> m' \<and> m' \<le> 11 \<and> 1 \<le> d' \<and> d' \<le> 31 \<and>
        fmt w m d = fmt w' m' d' \<longrightarrow> w = w' \<and> m = m' \<and> d = d')"

section \<open>The recorder component (AudioRecorder)\<close>

subsection \<open>Negotiating the encoding\<close>

text \<open>
  The device as the component sees it: \<^verbatim>\<open>MediaRecorder.isTypeSupported\<close> and the encoding
  a recorder reports when it was built without options (possibly the empty string).
\<close>

record device =
  isTypeSupported :: "string \<Rightarrow> bool"
  defaultMimeType :: string

definition mimeTypes :: "string list" where
  "mimeTypes =
     [''audio/webm;codecs=opus'', ''audio/webm'', ''audio/mp4'', ''audio/aac'', ''audio/ogg'']"

text \<open>
  The \<^verbatim>\<open>for\<close> loop with its \<^verbatim>\<open>break\<close>: \<open>selected\<close> is the value of
  \<^verbatim>\<open>selectedMimeType\<close> so far.
\<close>

fun select_loop :: "(string \<Rightarrow> bool) \<Rightarrow> string list \<Rightarrow> string \<Rightarrow> string" where
  "select_loop supported [] selected = selected"
| "select_loop supported (t # ts) selected =
     (if supported t then t else select_loop supported ts selected)"

definition selectedMimeType :: "(string \<Rightarrow> bool) \<Rightarrow> string" where
  "selectedMimeType supported = select_loop supported mimeTypes []"

text \<open>
  \<^verbatim>\<open>selectedMimeType ? { mimeType: selectedMimeType } : undefined\<close>: the options handed
  to the \<^verbatim>\<open>MediaRecorder\<close> constructor, \<open>None\<close> leaving the choice to the device.
\<close>

definition recorder_options :: "(string \<Rightarrow> bool) \<Rightarrow> string option" where
  "recorder_options supported =
     (if selectedMimeType supported = [] then None else Some (selectedMimeType supported))"

text \<open>The \<^verbatim>\<open>mimeType\<close> attribute of the recorder built with these options.\<close>

definition recorder_mimeType :: "device \<Rightarrow> string option \<Rightarrow> string" where
  "recorder_mimeType dev options =
     (case options of Some t \<Rightarrow> t | None \<Rightarrow> defaultMimeType dev)"

text \<open>\<^verbatim>\<open>mediaRecorderRef.current.mimeType || selectedMimeType || ''\<close>.\<close>

definition negotiated_mimeType :: "device \<Rightarrow> string" where
  "negotiated_mimeType dev =
     (let selected = selectedMimeType (isTypeSupported dev);
          reported = recorder_mimeType dev (recorder_options (isTypeSupported dev))
      in if reported \<noteq> [] then reported else if selected \<noteq> [] then selected else [])"

subsection \<open>The component and the resources it holds\<close>

text \<open>
  A track of the microphone stream: whether it has ended, and how often \<^verbatim>\<open>stop()\<close>
  was called on it.
\<close>

record track =
  ended :: bool
  stop_calls :: nat

definition live_track :: track where
  "live_track = \<lparr>ended = False, stop_calls = 0\<rparr>"

definition stop_track :: "track \<Rightarrow> track" where
  "stop_track t = t\<lparr>ended := True, stop_calls := Suc (stop_calls t)\<rparr>"

datatype life = Fresh | Mounted | Unmounted

text \<open>
  The cells and refs of the component (\<open>mediaRecorderRef\<close> and \<open>timerRef\<close> record
  whether the ref is set; \<^verbatim>\<open>setInterval\<close> returns a non-zero handle, so the test
  \<^verbatim>\<open>if (timerRef.current)\<close> is the test that the timer was set), and the world
  around it: whether the request for the microphone is still pending, the stream once it
  was granted, the state of the recorder object, the interval timer, the number of
  \<^verbatim>\<open>clearInterval\<close> calls, and the calls of the two callbacks of the parent.
\<close>

record recorder =
  isRecording :: bool
  duration :: nat
  mediaRecorderRef :: bool
  chunksRef :: "nat list list"
  timerRef :: bool
  mimeTypeRef :: string
  life :: life
  request_pending :: bool
  stream :: "track list option"
  recorder_active :: bool
  stop_event_pending :: bool
  timer_running :: bool
  clearInterval_calls :: nat
  completed :: "Blob list"
  cancels :: nat

definition initial_recorder :: recorder where
  "initial_recorder =
     \<lparr>isRecording = False, duration = 0, mediaRecorderRef = False, chunksRef = [],
      timerRef = False, mimeTypeRef = [], life = Fresh, request_pending = False,
      stream = None, recorder_active = False, stop_event_pending = False,
      timer_running = False, clearInterval_calls = 0, completed = [], cancels = 0\<rparr>"

text \<open>
  \<^verbatim>\<open>stopRecordingCleanup\<close>: clear the timer if the ref is set, stop every track of the
  recorder's stream if there is a recorder. Neither ref is reset.
\<close>

definition stopRecordingCleanup :: "recorder \<Rightarrow> recorder" where
  "stopRecordingCleanup st =
     (let st1 = (if timerRef st
                 then st\<lparr>timer_running := False,
                         clearInterval_calls := Suc (clearInterval_calls st)\<rparr>
                 else st)
      in if mediaRecorderRef st1
         then st1\<lparr>stream := map_option (map stop_track) (stream st1)\<rparr>
         else st1)"

text \<open>
  How the awaited \<^verbatim>\<open>getUserMedia\<close> ends, and what follows in the \<^verbatim>\<open>try\<close> block: the
  request is denied; or a stream with so many tracks is granted and then the
  \<^verbatim>\<open>MediaRecorder\<close> constructor throws, or \<^verbatim>\<open>start()\<close> throws, or recording starts.
\<close>

datatype acquisition = Denied | ConstructorThrows nat | StartThrows nat | Started nat

text \<open>
  The rest of \<^verbatim>\<open>startRecording\<close> after the \<^verbatim>\<open>await\<close>. Every throw lands in the
  \<^verbatim>\<open>catch\<close>, which calls \<^verbatim>\<open>onCancel\<close>. The code does not ask whether the component
  is still mounted.
\<close>

definition startRecording_resume :: "device \<Rightarrow> acquisition \<Rightarrow> recorder \<Rightarrow> recorder" where
  "startRecording_resume dev outcome st =
     (case outcome of
        Denied \<Rightarrow> st\<lparr>request_pending := False, cancels := Suc (cancels st)\<rparr>
      | ConstructorThrows n \<Rightarrow>
          st\<lparr>request_pending := False, stream := Some (replicate n live_track),
             cancels := Suc (cancels st)\<rparr>
      | StartThrows n \<Rightarrow>
          st\<lparr>request_pending := False, stream := Some (replicate n live_track),
             mediaRecorderRef := True, mimeTypeRef := negotiated_mimeType dev,
             chunksRef := [], cancels := Suc (cancels st)\<rparr>
      | Started n \<Rightarrow>
          st\<lparr>request_pending := False, stream := Some (replicate n live_track),
             mediaRecorderRef := True, mimeTypeRef := negotiated_mimeType dev,
             chunksRef := [], recorder_active := True, isRecording := True,
             timerRef := True, timer_running := True\<rparr>)"

text \<open>
  \<^verbatim>\<open>stopRecording\<close>: \<^verbatim>\<open>stop()\<close> makes the recorder inactive and queues its stop event
  (on an inactive recorder it does nothing).
\<close>

definition stopRecording :: "recorder \<Rightarrow> recorder" where
  "stopRecording st =
     (if mediaRecorderRef st \<and> isRecording st
      then st\<lparr>stop_event_pending := stop_event_pending st \<or> recorder_active st,
              recorder_active := False, isRecording := False\<rparr>
      else st)"

text \<open>\<^verbatim>\<open>ondataavailable\<close>: empty chunks are dropped.\<close>

definition ondataavailable :: "nat list \<Rightarrow> recorder \<Rightarrow> recorder" where
  "ondataavailable chunk st =
     (if 0 < length chunk then st\<lparr>chunksRef := chunksRef st @ [chunk]\<rparr> else st)"

text \<open>
  The \<^verbatim>\<open>Blob\<close> constructor keeps a type made of printable ASCII characters, in lower
  case, and turns any other type into the empty string.
\<close>

definition ascii_lower :: "char \<Rightarrow> char" where
  "ascii_lower c =
     (if 65 \<le> (of_char c :: nat) \<and> (of_char c :: nat) \<le> 90
      then char_of (of_char c + 32 :: nat) else c)"

definition new_Blob_type :: "string \<Rightarrow> string" where
  "new_Blob_type ty =
     (if list_all (\<lambda>c. 32 \<le> (of_char c :: nat) \<and> (of_char c :: nat) \<le> 126) ty
      then map ascii_lower ty else [])"

text \<open>
  \<^verbatim>\<open>onstop\<close>: build the blob with the type \<^verbatim>\<open>mimeTypeRef.current || 'audio/webm'\<close>,
  hand it to \<^verbatim>\<open>onRecordingComplete\<close>, then clean up.
\<close>

definition onstop :: "recorder \<Rightarrow> recorder" where
  "onstop st =
     (let ty = (if mimeTypeRef st = [] then ''audio/webm'' else mimeTypeRef st);
          blob = \<lparr>blob_type = new_Blob_type ty, blob_bytes = concat (chunksRef st)\<rparr>
      in stopRecordingCleanup (st\<lparr>completed := completed st @ [blob]\<rparr>))"

text \<open>
  The events of a session. \<open>Mount\<close> runs the effect, which calls \<^verbatim>\<open>startRecording\<close> up
  to its \<^verbatim>\<open>await\<close>; \<open>Resolve\<close> is the end of that wait; \<open>ClickStop\<close> and \<open>ClickCancel\<close> are
  the two buttons (there while the component is mounted); \<open>DataAvailable\<close> and
  \<open>StopEvent\<close> are the recorder's events, which the device raises after \<^verbatim>\<open>stop()\<close> or,
  of its own, while recording; \<open>Tick\<close> is the interval timer; \<open>Unmount\<close> is the parent
  closing the recorder, which runs the cleanup of the effect. An event that cannot
  happen in a state leaves it unchanged.
\<close>

datatype rec_event =
    Mount
  | Resolve acquisition
  | ClickStop
  | ClickCancel
  | DataAvailable "nat list"
  | StopEvent
  | Tick
  | Unmount

fun rec_step :: "device \<Rightarrow> recorder \<Rightarrow> rec_event \<Rightarrow> recorder" where
  "rec_step dev st Mount =
     (if life st = Fresh then st\<lparr>life := Mounted, request_pending := True\<rparr> else st)"
| "rec_step dev st (Resolve outcome) =
     (if request_pending st then startRecording_resume dev outcome st else st)"
| "rec_step dev st ClickStop = (if life st = Mounted then stopRecording st else st)"
| "rec_step dev st ClickCancel =
     (if life st = Mounted then st\<lparr>cancels := Suc (cancels st)\<rparr> else st)"
| "rec_step dev st (DataAvailable chunk) =
     (if mediaRecorderRef st \<and> (recorder_active st \<or> stop_event_pending st)
      then ondataavailable chunk st else st)"
| "rec_step dev st StopEvent =
     (if mediaRecorderRef st \<and> (recorder_active st \<or> stop_event_pending st)
      then onstop (st\<lparr>recorder_active := False, stop_event_pending := False\<rparr>) else st)"
| "rec_step dev st Tick =
     (if timer_running st then st\<lparr>duration := Suc (duration st)\<rparr> else st)"
| "rec_step dev st Unmount =
     (if life st = Mounted then stopRecordingCleanup (st\<lparr>life := Unmounted\<rparr>) else st)"

definition rec_run :: "device \<Rightarrow> recorder \<Rightarrow> rec_event list \<Rightarrow> recorder" where
  "rec_run dev st evs = foldl (rec_step dev) st evs"

text \<open>The state in which recording has begun on a stream of \<open>n\<close> tracks.\<close>

definition recording :: "device \<Rightarrow> nat \<Rightarrow> recorder" where
  "recording dev n = rec_run dev initial_recorder [Mount, Resolve (Started n)]"

text \<open>The tracks of the stream (none before a stream is granted).\<close>

definition tracks :: "recorder \<Rightarrow> track list" where
  "tracks st = (case stream st of None \<Rightarrow> [] | Some ts \<Rightarrow> ts)"

text \<open>Nothing is held: every track has ended and the timer does not run.\<close>

definition released :: "recorder \<Rightarrow> bool" where
  "released st = (list_all ended (tracks st) \<and> \<not> timer_running st)"



section \<open>Sample data\<close>

definition demo_blob :: Blob where
  "demo_blob = \<lparr>blob_type = ''audio/mp4'', blob_bytes = [1, 2, 3]\<rparr>"

definition demo_env :: "string option \<Rightarrow> (cause + string option) \<Rightarrow> env" where
  "demo_env key answer =
     \<lparr>API_KEY = key,
      readAsDataURL = (\<lambda>b. Some (''data:'' @ blob_type b @ '';base64,AQID'')),
      generateContent = (\<lambda>r. answer)\<rparr>"

definition untyped_blob :: Blob where
  "untyped_blob = \<lparr>blob_type = [], blob_bytes = [1, 2, 3]\<rparr>"

definition demo_events :: "app_event list" where
  "demo_events =
     [LoadEntries True, SetInputText ''buy milk'', TextSubmit ''u1'' 1000 True,
      SetRecordingMode True,
      AudioComplete (demo_env (Some ''k'') (Inr None)) ''u2'' 2000 True demo_blob,
      Delete True True ''u1'']"

definition demo_store :: "JournalEntry list" where
  "demo_store =
     [\<lparr>entry_id = ''b'', type = Text, content = ''second'', audioBlob = None, timestamp = 7\<rparr>,
      \<lparr>entry_id = ''a'', type = Text, content = ''first'', audioBlob = None, timestamp = 7\<rparr>,
      \<lparr>entry_id = ''z'', type = Text, content = ''oldest'', audioBlob = None, timestamp = 3\<rparr>]"

definition demo_entry :: JournalEntry where
  "demo_entry =
     \<lparr>entry_id = ''c'', type = Text, content = ''third'', audioBlob = None, timestamp = 7\<rparr>"

definition demo_device :: device where
  "demo_device =
     \<lparr>isTypeSupported = (\<lambda>t. t = ''audio/mp4'' \<or> t = ''audio/aac''), defaultMimeType = ''audio/wav''\<rparr>"


definition cancelled_session :: "rec_event list" where
  "cancelled_session = [Mount, Resolve (Started 1), Tick, ClickCancel, Unmount]"

definition failed_session :: "rec_event list" where
  "failed_session = [Mount, Resolve Denied, Unmount]"

text \<open>
  The zone UTC, and a clock that stands still.
\<close>

definition utc :: zone where
  "utc = fixed_zone 0"

definition steady :: "int \<Rightarrow> nat \<Rightarrow> int" where
  "steady now k = now"

text \<open>
  Three entries, the most recent first: noon of Tuesday 5 March 2024, the morning of
  Monday 4 March 2024 and the morning of Tuesday 5 March 2019 (all UTC); the wall clock
  stands at 1 June 2024.
\<close>

definition entry_2024_03_05 :: JournalEntry where
  "entry_2024_03_05 =
     \<lparr>entry_id = ''e1'', type = Text, content = ''dentist'', audioBlob = None,
      timestamp = 1709640000000\<rparr>"

definition entry_2024_03_04 :: JournalEntry where
  "entry_2024_03_04 =
     \<lparr>entry_id = ''e2'', type = Text, content = ''buy milk'', audioBlob = None,
      timestamp = 1709542800000\<rparr>"

definition entry_2019_03_05 :: JournalEntry where
  "entry_2019_03_05 =
     \<lparr>entry_id = ''e3'', type = Text, content = ''first day'', audioBlob = None,
      timestamp = 1551772800000\<rparr>"

definition june_1st_2024 :: int where
  "june_1st_2024 = 1717236000000"

definition entry_2024_03_05_early :: JournalEntry where
  "entry_2024_03_05_early =
     \<lparr>entry_id = ''e0'', type = Text, content = ''coffee'', audioBlob = None,
      timestamp = 1709625600000\<rparr>"

definition march_5th_2024 :: int where
  "march_5th_2024 = 1709650000000"

text \<open>
  A zone with daylight saving time: five hours behind UTC until 10 March 2024, 07:00 UTC,
  and four hours behind from then on, as in New York that spring. The wall-clock hour
  from 02:00 to 03:00 of that day is skipped and taken with the offset before the change.
  Three entries around the change (Saturday 9 March, 23:30 and 19:20 local time, and
  Sunday 10 March, 13:00 local time), and a clock that starts at noon local time of
  Monday 11 March and advances by a millisecond with every reading.
\<close>

definition new_york :: zone where
  "new_york =
     \<lparr>utc_offset = (\<lambda>t. if t < 1710054000000 then - 18000000 else - 14400000),
      local_offset = (\<lambda>lt. if lt < 1710039600000 then - 18000000 else - 14400000)\<rparr>"

definition entry_march_9_late :: JournalEntry where
  "entry_march_9_late =
     \<lparr>entry_id = ''n2'', type = Text, content = ''late'', audioBlob = None,
      timestamp = 1710045000000\<rparr>"

definition entry_march_9_evening :: JournalEntry where
  "entry_march_9_evening =
     \<lparr>entry_id = ''n1'', type = Text, content = ''dinner'', audioBlob = None,
      timestamp = 1710030000000\<rparr>"

definition entry_march_10 :: JournalEntry where
  "entry_march_10 =
     \<lparr>entry_id = ''n3'', type = Text, content = ''lunch'', audioBlob = None,
      timestamp = 1710090000000\<rparr>"

definition ticking :: "nat \<Rightarrow> int" where
  "ticking k = 1710172800000 + int k"

text \<open>
  A clock that passes midnight (UTC) between the two passes of a render of one entry: two
  readings a second before 6 March 2024, the following a second after.
\<close>

definition midnight_clock :: "nat \<Rightarrow> int" where
  "midnight_clock k = (if k < 2 then 1709683199000 else 1709683201000)"

section \<open>Transcription: what a call does\<close>

text \<open>
  With a credential and a readable blob the call issues its one request; the outcome is
  the provider's fault, logged and thrown again as it is, or the provider's text.
\<close>

lemma transcribeAudio_fault:
  "API_KEY ev = Some key \<Longrightarrow> key \<noteq> [] \<Longrightarrow> blobToBase64 ev blob = Inr b64 \<Longrightarrow>
   generateContent ev (make_request blob b64) = Inl c \<Longrightarrow>
   transcribeAudio ev blob =
     (Inl (ProviderFault c),
      [NewClient key, ReadAsDataURL blob, GenerateContent (make_request blob b64),
       ConsoleError ''Gemini Transcription Error:'' (ProviderFault c)])"
  by (simp add: transcribeAudio_def Let_def)

lemma transcribeAudio_answer:
  "API_KEY ev = Some key \<Longrightarrow> key \<noteq> [] \<Longrightarrow> blobToBase64 ev blob = Inr b64 \<Longrightarrow>
   generateContent ev (make_request blob b64) = Inr t \<Longrightarrow>
   transcribeAudio ev blob =
     (Inr (case t of None \<Rightarrow> [] | Some s \<Rightarrow> s),
      [NewClient key, ReadAsDataURL blob, GenerateContent (make_request blob b64)])"
  by (simp add: transcribeAudio_def Let_def)

lemma transcribeAudio_requests:
  assumes "API_KEY ev = Some key" "key \<noteq> []" "blobToBase64 ev blob = Inr b64"
  shows "requests_of (snd (transcribeAudio ev blob)) = [make_request blob b64]"
proof (cases "generateContent ev (make_request blob b64)")
  case (Inl c)
  from transcribeAudio_fault [OF assms Inl] show ?thesis by simp
next
  case (Inr t)
  from transcribeAudio_answer [OF assms Inr] show ?thesis by simp
qed

lemma demo_base64 [simp]:
  "blobToBase64 (demo_env key answer) demo_blob = Inr (Some ''AQID'')"
  by (simp add: blobToBase64_def demo_env_def demo_blob_def)

lemma demo_base64_untyped [simp]:
  "blobToBase64 (demo_env key answer) untyped_blob = Inr (Some ''AQID'')"
  by (simp add: blobToBase64_def demo_env_def untyped_blob_def)

lemma demo_env_sel [simp]:
  "API_KEY (demo_env key answer) = key"
  "generateContent (demo_env key answer) r = answer"
  by (simp_all add: demo_env_def)

section \<open>Transcription: missing credential\<close>

text \<open>
  Claim C5. When the credential is absent (undefined, or the empty string, which the
  code treats alike), \<open>transcribeAudio\<close> throws the error "API Key is missing." and
  has had no effect at all: no client, no read of the blob, no request, no log line.
\<close>

theorem transcribeAudio_missing_key:
  "API_KEY ev = None \<or> API_KEY ev = Some [] \<Longrightarrow>
   transcribeAudio ev blob = (Inl (Error ''API Key is missing.''), [])"
  by (auto simp: transcribeAudio_def)

theorem transcribeAudio_missing_key_witness:
  "(API_KEY (demo_env None (Inr (Some ''hello''))) = None
      \<or> API_KEY (demo_env None (Inr (Some ''hello''))) = Some [])
   \<and> transcribeAudio (demo_env None (Inr (Some ''hello''))) demo_blob
       = (Inl (Error ''API Key is missing.''), [])"
  using transcribeAudio_missing_key [of "demo_env None (Inr (Some ''hello''))" demo_blob]
  by (simp add: demo_env_def)

section \<open>Transcription: the MIME type of the request\<close>

text \<open>
  Claim C10. Whenever a request is issued (credential present, blob read), it is the
  only one, its MIME type is the blob's own type when that is a non-empty string and
  "audio/webm" when it is empty, and an empty type is no error: when the provider
  answers, the call returns the answer.
\<close>

theorem request_mimeType_sent:
  assumes "API_KEY ev = Some key" "key \<noteq> []" "blobToBase64 ev blob = Inr b64"
  shows "requests_of (snd (transcribeAudio ev blob)) = [make_request blob b64]
     \<and> mimeType (inline (make_request blob b64))
         = (if blob_type blob = [] then ''audio/webm'' else blob_type blob)
     \<and> (\<forall>t. generateContent ev (make_request blob b64) = Inr t \<longrightarrow>
           fst (transcribeAudio ev blob) = Inr (case t of None \<Rightarrow> [] | Some s \<Rightarrow> s))"
proof (intro conjI allI impI)
  show "requests_of (snd (transcribeAudio ev blob)) = [make_request blob b64]"
    by (rule transcribeAudio_requests [OF assms])
  show "mimeType (inline (make_request blob b64))
         = (if blob_type blob = [] then ''audio/webm'' else blob_type blob)"
    by (simp add: make_request_def request_mimeType_def)
  fix t assume "generateContent ev (make_request blob b64) = Inr t"
  from transcribeAudio_answer [OF assms this]
  show "fst (transcribeAudio ev blob) = Inr (case t of None \<Rightarrow> [] | Some s \<Rightarrow> s)" by simp
qed

theorem request_mimeType_sent_witness:
  "map (\<lambda>r. mimeType (inline r))
     (requests_of (snd (transcribeAudio (demo_env (Some ''k'') (Inr (Some ''hello''))) untyped_blob)))
     = [''audio/webm'']
   \<and> fst (transcribeAudio (demo_env (Some ''k'') (Inr (Some ''hello''))) untyped_blob)
     = Inr ''hello''"
proof -
  let ?ev = "demo_env (Some ''k'') (Inr (Some ''hello''))"
  have k: "API_KEY ?ev = Some ''k''" and ne: "''k'' \<noteq> []" by simp_all
  have b: "blobToBase64 ?ev untyped_blob = Inr (Some ''AQID'')" by simp
  have ty: "blob_type untyped_blob = []" by (simp add: untyped_blob_def)
  have g: "generateContent ?ev (make_request untyped_blob (Some ''AQID'')) = Inr (Some ''hello'')"
    by simp
  from request_mimeType_sent [OF k ne b] ty g show ?thesis by simp
qed

section \<open>Transcription: a fault of the provider\<close>

text \<open>
  Claim C6. When the request faults, \<open>transcribeAudio\<close> throws the provider's fault
  itself, having issued exactly one request (there is no retry), and the caller
  \<open>handleAudioComplete\<close> persists nothing: the store and the list in memory are as
  before, the blob is kept nowhere, and the processing flag is cleared.
\<close>

theorem provider_fault_no_retry_no_entry:
  assumes "API_KEY ev = Some key" "key \<noteq> []" "blobToBase64 ev blob = Inr b64"
    and "generateContent ev (make_request blob b64) = Inl c"
  shows "fst (transcribeAudio ev blob) = Inl (ProviderFault c)
     \<and> requests_of (snd (transcribeAudio ev blob)) = [make_request blob b64]
     \<and> db (handleAudioComplete ev uuid now medium_ok blob st) = db st
     \<and> entries (handleAudioComplete ev uuid now medium_ok blob st) = entries st
     \<and> isProcessingAudio (handleAudioComplete ev uuid now medium_ok blob st) = False"
  using transcribeAudio_fault [OF assms]
  by (simp add: handleAudioComplete_def audio_failed_def)

theorem provider_fault_no_retry_no_entry_witness:
  "fst (transcribeAudio (demo_env (Some ''k'') (Inl ''503'')) demo_blob) = Inl (ProviderFault ''503'')
   \<and> length (requests_of (snd (transcribeAudio (demo_env (Some ''k'') (Inl ''503'')) demo_blob))) = 1
   \<and> db (handleAudioComplete (demo_env (Some ''k'') (Inl ''503'')) ''u1'' 5 True demo_blob initial_app) = []
   \<and> entries (handleAudioComplete (demo_env (Some ''k'') (Inl ''503'')) ''u1'' 5 True demo_blob initial_app) = []"
proof -
  let ?ev = "demo_env (Some ''k'') (Inl ''503'')"
  have k: "API_KEY ?ev = Some ''k''" and ne: "''k'' \<noteq> []" by simp_all
  have b: "blobToBase64 ?ev demo_blob = Inr (Some ''AQID'')" by simp
  have g: "generateContent ?ev (make_request demo_blob (Some ''AQID'')) = Inl ''503''" by simp
  from provider_fault_no_retry_no_entry [OF k ne b g, of "''u1''" 5 True initial_app]
  show ?thesis by (simp add: initial_app_def)
qed

section \<open>Transcription: an empty transcript\<close>

text \<open>
  Claim C7. When the provider answers, \<open>transcribeAudio\<close> returns its text, and the
  empty string when the text is undefined (or empty): a value, not a thrown error. The
  caller then builds an audio entry with that content and the blob, and, the store
  accepting it (medium working, fresh id), persists it and puts it at the head of the
  list in memory, also when the content is empty.
\<close>

theorem empty_transcript_is_saved:
  assumes "API_KEY ev = Some key" "key \<noteq> []" "blobToBase64 ev blob = Inr b64"
    and "generateContent ev (make_request blob b64) = Inr t"
    and "uuid \<notin> set (map entry_id (db st))"
  shows "fst (transcribeAudio ev blob) = Inr (case t of None \<Rightarrow> [] | Some s \<Rightarrow> s)
     \<and> db (handleAudioComplete ev uuid now True blob st)
         = \<lparr>entry_id = uuid, type = Audio, content = (case t of None \<Rightarrow> [] | Some s \<Rightarrow> s),
            audioBlob = Some blob, timestamp = now\<rparr> # db st
     \<and> entries (handleAudioComplete ev uuid now True blob st)
         = \<lparr>entry_id = uuid, type = Audio, content = (case t of None \<Rightarrow> [] | Some s \<Rightarrow> s),
            audioBlob = Some blob, timestamp = now\<rparr> # entries st"
  using transcribeAudio_answer [OF assms(1-4)] assms(5)
  by (simp add: handleAudioComplete_def saveEntry_def audio_entry_def Let_def)

theorem empty_transcript_is_saved_witness:
  "fst (transcribeAudio (demo_env (Some ''k'') (Inr None)) demo_blob) = Inr []
   \<and> db (handleAudioComplete (demo_env (Some ''k'') (Inr None)) ''u1'' 5 True demo_blob initial_app)
       = [\<lparr>entry_id = ''u1'', type = Audio, content = [], audioBlob = Some demo_blob,
           timestamp = 5\<rparr>]"
proof -
  let ?ev = "demo_env (Some ''k'') (Inr None)"
  have k: "API_KEY ?ev = Some ''k''" and ne: "''k'' \<noteq> []" by simp_all
  have b: "blobToBase64 ?ev demo_blob = Inr (Some ''AQID'')" by simp
  have g: "generateContent ?ev (make_request demo_blob (Some ''AQID'')) = Inr None" by simp
  have f: "''u1'' \<notin> set (map entry_id (db initial_app))" by (simp add: initial_app_def)
  from empty_transcript_is_saved [OF k ne b g f, of 5]
  show ?thesis by (simp add: initial_app_def)
qed

section \<open>The entry store and the list in memory\<close>

lemma saveEntry_Inr: "saveEntry medium_ok e s = Inr s' \<Longrightarrow> s' = e # s"
  by (simp add: saveEntry_def split: if_splits)

lemma set_getAllEntries [simp]: "set (getAllEntries s) = set s"
  by (simp add: getAllEntries_def)

lemma deleteEntry_Inr: "deleteEntry medium_ok i s = Inr s' \<Longrightarrow> set s' \<subseteq> set s"
  by (auto simp: deleteEntry_def split: if_splits)

lemma insort_key_front: "\<forall>x \<in> set xs. f e \<le> f x \<Longrightarrow> insort_key f e xs = e # xs"
  by (cases xs) simp_all

lemma getAllEntries_front:
  assumes "\<forall>x \<in> set s. timestamp x \<le> timestamp e"
  shows "getAllEntries (e # s) = e # getAllEntries s"
proof -
  have "\<forall>x \<in> set (sort_key (\<lambda>e. - timestamp e) s). - timestamp e \<le> - timestamp x"
    using assms by simp
  then show ?thesis by (simp add: getAllEntries_def insort_key_front)
qed

text \<open>
  Claim C3. After a successful insert of an entry whose timestamp is at least that of
  every stored entry, the listing is that entry followed by the former listing; the
  listing is ordered by timestamp descending; and among entries of one timestamp the
  listing keeps the order of the store, which holds the latest insert first.
\<close>

theorem insert_max_listed_first:
  assumes "saveEntry medium_ok e s = Inr s'" and "\<forall>x \<in> set s. timestamp x \<le> timestamp e"
  shows "getAllEntries s' = e # getAllEntries s
     \<and> sorted_wrt (\<lambda>a b. timestamp b \<le> timestamp a) (getAllEntries s')
     \<and> (\<forall>t. filter (\<lambda>x. timestamp x = t) (getAllEntries s') = filter (\<lambda>x. timestamp x = t) s')"
proof (intro conjI allI)
  have s': "s' = e # s" using assms(1) by (rule saveEntry_Inr)
  show "getAllEntries s' = e # getAllEntries s"
    unfolding s' using assms(2) by (rule getAllEntries_front)
  have "sorted (map (\<lambda>e. - timestamp e) (getAllEntries s'))"
    by (simp add: getAllEntries_def)
  then show "sorted_wrt (\<lambda>a b. timestamp b \<le> timestamp a) (getAllEntries s')"
    by (simp add: sorted_map)
  fix t
  have "filter (\<lambda>x. - timestamp x = - t) (getAllEntries s') = filter (\<lambda>x. - timestamp x = - t) s'"
    unfolding getAllEntries_def by (rule sort_key_stable)
  then show "filter (\<lambda>x. timestamp x = t) (getAllEntries s') = filter (\<lambda>x. timestamp x = t) s'"
    by simp
qed

theorem insert_max_listed_first_witness:
  "saveEntry True demo_entry demo_store = Inr (demo_entry # demo_store)
   \<and> map timestamp demo_store = [7, 7, 3] \<and> timestamp demo_entry = 7
   \<and> map entry_id (getAllEntries (demo_entry # demo_store)) = [''c'', ''b'', ''a'', ''z'']"
proof -
  have ins: "saveEntry True demo_entry demo_store = Inr (demo_entry # demo_store)"
    by (simp add: saveEntry_def demo_entry_def demo_store_def)
  have mx: "\<forall>x \<in> set demo_store. timestamp x \<le> timestamp demo_entry"
    by (simp add: demo_entry_def demo_store_def)
  have old: "map entry_id (getAllEntries demo_store) = [''b'', ''a'', ''z'']"
    by (simp add: getAllEntries_def demo_store_def)
  from insert_max_listed_first [OF ins mx]
  have "getAllEntries (demo_entry # demo_store) = demo_entry # getAllEntries demo_store"
    by blast
  with ins old show ?thesis by (simp add: demo_entry_def demo_store_def)
qed

text \<open>
  The handlers put the new entry in front of the list in memory. With the clock not
  behind any stored timestamp, that list stays the listing of the store.
\<close>

lemma handleTextSubmit_view:
  assumes "entries st = getAllEntries (db st)" and "trim (inputText st) \<noteq> []"
    and "uuid \<notin> set (map entry_id (db st))" and "\<forall>x \<in> set (db st). timestamp x \<le> now"
  shows "entries (handleTextSubmit uuid now True st)
           = getAllEntries (db (handleTextSubmit uuid now True st))
     \<and> entries (handleTextSubmit uuid now True st)
           = text_entry uuid now (inputText st) # entries st"
proof -
  have "\<forall>x \<in> set (db st). timestamp x \<le> timestamp (text_entry uuid now (inputText st))"
    using assms(4) by (simp add: text_entry_def)
  moreover have "entry_id (text_entry uuid now (inputText st)) = uuid"
    by (simp add: text_entry_def)
  ultimately show ?thesis using assms(1-3)
    by (simp add: handleTextSubmit_def saveEntry_def Let_def getAllEntries_front)
qed

section \<open>Attachments\<close>

lemma attachment_ok_text_entry: "attachment_ok (text_entry uuid now txt)"
  by (simp add: attachment_ok_def text_entry_def)

lemma attachment_ok_audio_entry: "attachment_ok (audio_entry uuid now tr blob)"
  by (simp add: attachment_ok_def audio_entry_def)

lemma app_inv_loadEntries: "app_inv st \<Longrightarrow> app_inv (loadEntries ok st)"
  by (simp add: app_inv_def loadEntries_def)

lemma app_inv_handleTextSubmit: "app_inv st \<Longrightarrow> app_inv (handleTextSubmit uuid now ok st)"
  by (auto simp: app_inv_def handleTextSubmit_def Let_def attachment_ok_text_entry
      dest!: saveEntry_Inr split: sum.splits)

lemma app_inv_handleAudioComplete:
  "app_inv st \<Longrightarrow> app_inv (handleAudioComplete ev uuid now ok blob st)"
  by (auto simp: app_inv_def handleAudioComplete_def Let_def audio_failed_def
      attachment_ok_audio_entry dest!: saveEntry_Inr split: sum.splits prod.splits)

lemma app_inv_handleDelete: "app_inv st \<Longrightarrow> app_inv (handleDelete c ok i st)"
  by (auto simp: app_inv_def handleDelete_def dest!: deleteEntry_Inr split: sum.splits)

lemma app_inv_step: "app_inv st \<Longrightarrow> app_inv (app_step st ev)"
  by (cases ev)
     (simp_all add: app_inv_loadEntries app_inv_handleTextSubmit app_inv_handleAudioComplete
        app_inv_handleDelete, simp_all add: app_inv_def)

lemma app_inv_foldl: "app_inv st \<Longrightarrow> app_inv (foldl app_step st evs)"
  by (induction evs arbitrary: st) (simp_all add: app_inv_step)

lemma demo_run: "entries (app_run demo_events) = [audio_entry ''u2'' 2000 [] demo_blob]"
  by (simp add: app_run_def demo_events_def initial_app_def loadEntries_def getAllEntries_def
      handleTextSubmit_def trim_def is_space_def text_entry_def saveEntry_def Let_def
      handleAudioComplete_def transcribeAudio_def make_request_def audio_entry_def
      handleDelete_def deleteEntry_def)

text \<open>
  Claim C4. The entry built by \<open>handleTextSubmit\<close> is of type text and has no blob; the
  entry built by \<open>handleAudioComplete\<close> is of type audio and carries the recorded blob;
  and in every state the component reaches from its initial state (empty store), each
  entry in memory or in the store has a blob exactly if its type is audio.
\<close>

theorem attachment_iff_audio:
  "type (text_entry uuid now txt) = Text \<and> audioBlob (text_entry uuid now txt) = None
   \<and> type (audio_entry uuid now tr blob) = Audio
   \<and> audioBlob (audio_entry uuid now tr blob) = Some blob
   \<and> (\<forall>e \<in> set (entries (app_run evs)) \<union> set (db (app_run evs)).
        (audioBlob e \<noteq> None) = (type e = Audio))"
proof -
  have "app_inv initial_app" by (simp add: app_inv_def initial_app_def)
  then have "app_inv (app_run evs)" unfolding app_run_def by (rule app_inv_foldl)
  then have "\<forall>e \<in> set (entries (app_run evs)) \<union> set (db (app_run evs)).
        (audioBlob e \<noteq> None) = (type e = Audio)"
    unfolding app_inv_def attachment_ok_def .
  then show ?thesis by (simp add: text_entry_def audio_entry_def)
qed

theorem attachment_iff_audio_witness:
  "audio_entry ''u2'' 2000 [] demo_blob \<in> set (entries (app_run demo_events))
   \<and> (audioBlob (audio_entry ''u2'' 2000 [] demo_blob) \<noteq> None)
   \<and> type (audio_entry ''u2'' 2000 [] demo_blob) = Audio"
proof -
  have mem: "audio_entry ''u2'' 2000 [] demo_blob \<in> set (entries (app_run demo_events))"
    by (simp add: demo_run)
  have ty: "type (audio_entry ''u2'' 2000 [] demo_blob) = Audio"
    by (simp add: audio_entry_def)
  from attachment_iff_audio [of "''u''" 0 "''t''" "''t''" demo_blob demo_events] mem
  have "(audioBlob (audio_entry ''u2'' 2000 [] demo_blob) \<noteq> None)
        = (type (audio_entry ''u2'' 2000 [] demo_blob) = Audio)"
    by blast
  with mem ty show ?thesis by simp
qed

section \<open>Calendar arithmetic\<close>

text \<open>
  Division with remainder by a positive number, stepping the dividend by one, and the
  bounds of a quotient.
\<close>

lemma div_next:
  fixes x n :: int
  assumes "0 < n"
  shows "(x + 1) div n = x div n + (if (x + 1) mod n = 0 then 1 else 0)"
proof -
  have x: "x = n * (x div n) + x mod n" by simp
  have r: "0 \<le> x mod n" "x mod n < n" using assms by simp_all
  show ?thesis
  proof (cases "x mod n = n - 1")
    case True
    with x have "x + 1 = n * (x div n) + n" by linarith
    also have "\<dots> = n * (x div n + 1) + 0" by (simp add: algebra_simps)
    finally have e: "x + 1 = n * (x div n + 1) + 0" .
    have "(x + 1) div n = x div n + 1"
      by (subst e) (use assms in simp)
    moreover have "(x + 1) mod n = 0"
      by (subst e) (use assms in simp)
    ultimately show ?thesis by simp
  next
    case False
    then have b: "0 \<le> x mod n + 1" "x mod n + 1 < n" using r by linarith+
    have e: "x + 1 = n * (x div n) + (x mod n + 1)" using x by linarith
    have "(x + 1) div n = x div n"
      using int_div_pos_eq [OF e b] .
    moreover have "(x + 1) mod n = x mod n + 1"
      using int_mod_pos_eq [OF e b] .
    moreover have "x mod n + 1 \<noteq> 0" using r by linarith
    ultimately show ?thesis by simp
  qed
qed

lemma div_bounds:
  fixes x n :: int
  assumes "0 < n"
  shows "n * (x div n) \<le> x" "x \<le> n * (x div n) + (n - 1)"
proof -
  have x: "x = n * (x div n) + x mod n" by simp
  have r: "0 \<le> x mod n" "x mod n < n" using assms by simp_all
  show "n * (x div n) \<le> x" using x r by linarith
  show "x \<le> n * (x div n) + (n - 1)" using x r by linarith
qed

lemma mod_shift: "(y - k * n) mod n = y mod n" for y k n :: int
  by (metis add.commute diff_conv_add_uminus mod_mult_self2 mult_minus_left uminus_add_conv_diff mod_mult_self1)


text \<open>
  A year has 365 or 366 days, and \<open>YearFromTime\<close> is the year that holds the day: the
  day within the year, the month and the day of the month are in their ranges, and the
  three fields of the date give back the day number.
\<close>

lemma leap_mods:
  "(y - 1968) mod 4 = y mod 4" "(y - 1900) mod 100 = y mod 100" "(y - 1600) mod 400 = y mod 400"
  for y :: int
  using mod_shift [of y 492 4] mod_shift [of y 19 100] mod_shift [of y 4 400] by simp_all

lemma mod_chain: "y mod 400 = 0 \<Longrightarrow> y mod 100 = 0" "y mod 100 = 0 \<Longrightarrow> y mod 4 = 0" for y :: int
proof -
  have "(100::int) dvd 400" "(4::int) dvd 100" by simp_all
  then show "y mod 400 = 0 \<Longrightarrow> y mod 100 = 0" "y mod 100 = 0 \<Longrightarrow> y mod 4 = 0"
    by (auto simp: mod_eq_0_iff_dvd dest: dvd_trans)
qed

lemma DayFromYear_next: "DayFromYear (y + 1) = DayFromYear y + DaysInYear y"
proof -
  have a: "(y - 1968) div 4 = (y - 1969) div 4 + (if y mod 4 = 0 then 1 else 0)"
    using div_next [of 4 "y - 1969"] by (simp add: leap_mods)
  have b: "(y - 1900) div 100 = (y - 1901) div 100 + (if y mod 100 = 0 then 1 else 0)"
    using div_next [of 100 "y - 1901"] by (simp add: leap_mods)
  have c: "(y - 1600) div 400 = (y - 1601) div 400 + (if y mod 400 = 0 then 1 else 0)"
    using div_next [of 400 "y - 1601"] by (simp add: leap_mods)
  have "DayFromYear (y + 1)
      = 365 * (y - 1970) + 365 + (y - 1968) div 4 - (y - 1900) div 100 + (y - 1600) div 400"
    by (simp add: DayFromYear_def algebra_simps)
  then show ?thesis
    using mod_chain [of y] by (auto simp add: a b c DayFromYear_def DaysInYear_def)
qed

lemma DayFromYear_bounds:
  "146097 * y - 287811890 \<le> 400 * DayFromYear y"
  "400 * DayFromYear y \<le> 146097 * y - 287810290"
proof -
  define a b c where "a = (y - 1969) div 4" and "b = (y - 1901) div 100"
    and "c = (y - 1601) div 400"
  have a: "4 * a \<le> y - 1969" "y - 1969 \<le> 4 * a + 3"
    using div_bounds [of 4 "y - 1969"] by (simp_all add: a_def)
  have b: "100 * b \<le> y - 1901" "y - 1901 \<le> 100 * b + 99"
    using div_bounds [of 100 "y - 1901"] by (simp_all add: b_def)
  have c: "400 * c \<le> y - 1601" "y - 1601 \<le> 400 * c + 399"
    using div_bounds [of 400 "y - 1601"] by (simp_all add: c_def)
  have d: "400 * DayFromYear y = 146000 * y - 287620000 + 400 * a - 400 * b + 400 * c"
    by (simp add: DayFromYear_def a_def b_def c_def algebra_simps)
  show "146097 * y - 287811890 \<le> 400 * DayFromYear y" unfolding d using a b c by linarith
  show "400 * DayFromYear y \<le> 146097 * y - 287810290" unfolding d using a b c by linarith
qed

lemma YearFromTime_bounds:
  "DayFromYear (YearFromTime t) \<le> Day t \<and> Day t < DayFromYear (YearFromTime t + 1)"
proof -
  define d where "d = Day t"
  define y where "y = 1970 + (d * 400) div 146097"
  define y1 where "y1 = y - 1"
  define y2 where "y2 = y + 2"
  have "146097 * ((d * 400) div 146097) \<le> d * 400"
    "d * 400 \<le> 146097 * ((d * 400) div 146097) + 146096"
    using div_bounds [of 146097 "d * 400"] by simp_all
  then have q: "146097 * y - 287811090 \<le> 400 * d" "400 * d \<le> 146097 * y - 287664994"
    by (simp_all add: y_def)
  have "400 * DayFromYear y1 \<le> 400 * d"
    using DayFromYear_bounds(2) [of y1] q y1_def by linarith
  then have lo: "DayFromYear (y - 1) \<le> d" by (simp add: y1_def)
  have "400 * d < 400 * DayFromYear y2"
    using DayFromYear_bounds(1) [of y2] q y2_def by linarith
  then have hi: "d < DayFromYear (y + 2)" by (simp add: y2_def)
  have Y: "YearFromTime t = (if DayFromYear (y + 1) \<le> d then y + 1
         else if d < DayFromYear y then y - 1 else y)"
    by (simp add: YearFromTime_def Let_def d_def y_def)
  have two: "y + 1 + 1 = y + 2" "y - 1 + 1 = y" by simp_all
  show ?thesis unfolding Y d_def [symmetric] using lo hi by (simp add: two)
qed

lemma DaysInYear_cases: "DaysInYear y = 365 \<or> DaysInYear y = 366"
  by (simp add: DaysInYear_def)

lemma InLeapYear_cases: "InLeapYear t = 0 \<or> InLeapYear t = 1"
  by (simp add: InLeapYear_def)

lemma DayWithinYear_range: "0 \<le> DayWithinYear t \<and> DayWithinYear t < 365 + InLeapYear t"
  using YearFromTime_bounds [of t] DaysInYear_cases [of "YearFromTime t"]
  by (auto simp: DayWithinYear_def DayFromYear_next InLeapYear_def)

lemma MonthFromTime_range: "0 \<le> MonthFromTime t \<and> MonthFromTime t \<le> 11"
  by (simp add: MonthFromTime_def Let_def)

lemma DateFromTime_range: "1 \<le> DateFromTime t \<and> DateFromTime t \<le> 31"
  using DayWithinYear_range [of t] InLeapYear_cases [of t]
  unfolding DateFromTime_def MonthFromTime_def month_start_def Let_def
  by (auto split: if_splits)

lemma WeekDay_range: "0 \<le> WeekDay t \<and> WeekDay t \<le> 6"
  by (simp add: WeekDay_def)

lemma Day_MakeDay: "MakeDay (YearFromTime t) (MonthFromTime t) (DateFromTime t) = Day t"
proof -
  have m: "MonthFromTime t div 12 = 0" "MonthFromTime t mod 12 = MonthFromTime t"
    using MonthFromTime_range [of t] by simp_all
  show ?thesis
    by (simp add: MakeDay_def Let_def m DateFromTime_def DayWithinYear_def InLeapYear_def)
qed

section \<open>Grouping: what the two passes compute\<close>

text \<open>
  The keys come out in the order of their first occurrence, each once; the object built
  by \<open>groupEntriesByDate\<close> holds under each key the entries with that key, in their
  order; and the rendering finds every key it asks for.
\<close>

lemma from_set_snoc: "from_set (xs @ [x]) = set_add (from_set xs) x"
  by (simp add: from_set_def)

lemma set_from_set [simp]: "set (from_set xs) = set xs"
  by (induction xs rule: rev_induct) (auto simp: from_set_snoc set_add_def, simp add: from_set_def)

lemma distinct_from_set [simp]: "distinct (from_set xs)"
  by (induction xs rule: rev_induct) (simp_all add: from_set_snoc set_add_def, simp add: from_set_def)

lemma from_set_first_occurrence: "from_set xs = rev (remdups (rev xs))"
  by (induction xs rule: rev_induct) (simp_all add: from_set_snoc set_add_def, simp add: from_set_def)

lemma foldl_group_step:
  "foldl (group_step f) g xs k =
     (case g k of
        None \<Rightarrow> (if k \<in> f ` set xs then Some (filter (\<lambda>x. f x = k) xs) else None)
      | Some ys \<Rightarrow> Some (ys @ filter (\<lambda>x. f x = k) xs))"
proof (induction xs arbitrary: g)
  case Nil
  then show ?case by (simp split: option.splits)
next
  case (Cons x xs)
  show ?case
    by (simp add: Cons.IH) (auto simp: group_step_def Let_def split: option.splits)
qed

lemma render_groups_total:
  "\<forall>k \<in> set ks. G k = Some (h k) \<Longrightarrow> render_groups G ks = Some (map (\<lambda>k. (k, h k)) ks)"
  by (induction ks) simp_all

text \<open>
  When the entries are in descending order of a day number and share a key exactly when
  they share the day, the groups taken in the order of the keys are the consecutive
  blocks of the sequence.
\<close>

lemma sorted_wrt_last:
  assumes "sorted_wrt P xs" "y \<in> set xs" "\<And>a. P a a"
  shows "P y (last xs)"
proof (cases "xs = []")
  case True
  with assms(2) show ?thesis by simp
next
  case False
  then have xs: "xs = butlast xs @ [last xs]" by simp
  then have "sorted_wrt P (butlast xs @ [last xs])" using assms(1) by simp
  then have "\<forall>a \<in> set (butlast xs). P a (last xs)" by (simp add: sorted_wrt_append)
  moreover have "y \<in> set (butlast xs) \<or> y = last xs"
    using assms(2) xs by (metis Un_iff insert_iff list.set(2) set_append empty_iff list.set(1))
  ultimately show ?thesis using assms(3) by blast
qed

lemma groups_concat:
  fixes f :: "'a \<Rightarrow> 'k" and d :: "'a \<Rightarrow> int"
  assumes "sorted_wrt (\<lambda>a b. d b \<le> d a) xs"
    and "\<forall>a \<in> set xs. \<forall>b \<in> set xs. (f a = f b) = (d a = d b)"
  shows "concat (map (\<lambda>k. filter (\<lambda>y. f y = k) xs) (from_set (map f xs))) = xs
     \<and> (xs \<noteq> [] \<longrightarrow> last (from_set (map f xs)) = f (last xs))"
  using assms
proof (induction xs rule: rev_induct)
  case Nil
  show ?case by (simp add: from_set_def)
next
  case (snoc x xs)
  define ks where "ks = from_set (map f xs)"
  define G where "G = (\<lambda>k. filter (\<lambda>y. f y = k) xs)"
  define G' where "G' = (\<lambda>k. filter (\<lambda>y. f y = k) (xs @ [x]))"
  have G'_other: "G' k = G k" if "k \<noteq> f x" for k
    using that by (auto simp: G'_def G_def)
  have G'_self: "G' (f x) = G (f x) @ [x]"
    by (simp add: G'_def G_def)
  have set_ks: "set ks = f ` set xs" and dist_ks: "distinct ks"
    by (simp_all add: ks_def)
  have srt: "sorted_wrt (\<lambda>a b. d b \<le> d a) xs" and below: "\<forall>a \<in> set xs. d x \<le> d a"
    using snoc.prems(1) by (simp_all add: sorted_wrt_append)
  have eqv: "\<forall>a \<in> set xs. \<forall>b \<in> set xs. (f a = f b) = (d a = d b)"
    using snoc.prems(2) by simp
  from snoc.IH [OF srt eqv]
  have IH1: "concat (map G ks) = xs" and IH2: "xs \<noteq> [] \<longrightarrow> last ks = f (last xs)"
    unfolding ks_def G_def by blast+
  have goal: "concat (map G' (from_set (map f (xs @ [x])))) = xs @ [x]
      \<and> last (from_set (map f (xs @ [x]))) = f x"
  proof (cases "f x \<in> set ks")
    case False
    then have keys: "from_set (map f (xs @ [x])) = ks @ [f x]"
      by (simp add: from_set_snoc set_add_def ks_def)
    have "\<forall>y \<in> set xs. f y \<noteq> f x"
      using False unfolding set_ks by (metis image_eqI)
    then have empty: "G (f x) = []"
      by (simp add: G_def filter_empty_conv)
    have m: "map G' ks = map G ks"
      using False by (intro map_cong refl G'_other) auto
    have "concat (map G' (ks @ [f x])) = concat (map G' ks) @ G' (f x)" by simp
    also have "\<dots> = concat (map G ks) @ (G (f x) @ [x])" by (simp only: m G'_self)
    also have "\<dots> = xs @ [x]" by (simp add: IH1 empty)
    finally have c: "concat (map G' (ks @ [f x])) = xs @ [x]" .
    show ?thesis by (simp only: keys c last_snoc simp_thms)
  next
    case True
    then obtain y where y: "y \<in> set xs" "f y = f x" by (auto simp: set_ks)
    then have ne: "xs \<noteq> []" by auto
    have "d y = d x" using snoc.prems(2) y by simp
    moreover have "d (last xs) \<le> d y"
      using sorted_wrt_last [OF srt y(1)] by simp
    moreover have "d x \<le> d (last xs)" using below ne by simp
    ultimately have "d (last xs) = d x" by linarith
    then have fl: "f (last xs) = f x" using snoc.prems(2) ne by simp
    then have lk: "last ks = f x" using IH2 ne by simp
    have "ks \<noteq> []" using True by auto
    then have ks: "ks = butlast ks @ [f x]" using lk by (metis append_butlast_last_id)
    have "distinct (butlast ks @ [f x])" using ks dist_ks by simp
    then have notin: "f x \<notin> set (butlast ks)" by simp
    have keys: "from_set (map f (xs @ [x])) = ks"
      using True by (simp add: from_set_snoc set_add_def ks_def)
    have m: "map G' (butlast ks) = map G (butlast ks)"
      using notin by (intro map_cong refl G'_other) auto
    have "concat (map G' (butlast ks @ [f x])) = concat (map G' (butlast ks)) @ G' (f x)"
      by simp
    also have "\<dots> = concat (map G (butlast ks)) @ (G (f x) @ [x])"
      by (simp only: m G'_self)
    also have "\<dots> = concat (map G (butlast ks @ [f x])) @ [x]" by simp
    finally have "concat (map G' ks) = concat (map G ks) @ [x]"
      using ks by simp
    then have "concat (map G' ks) = xs @ [x]" by (simp only: IH1)
    then show ?thesis by (simp only: keys lk simp_thms)
  qed
  then show ?case by (simp add: G'_def)
qed

section \<open>The key of an entry and its calendar day\<close>

text \<open>
  The fields of a date depend on the day number only, and two times print the same
  \<open>toDateString\<close> exactly when they lie on the same local day. In a zone that takes a
  wall-clock time for an instant of its own day, \<open>yesterday\<close> lies on the day before the
  reading it was made from.
\<close>

lemma Day_fields:
  assumes "Day a = Day b"
  shows "YearFromTime a = YearFromTime b" "MonthFromTime a = MonthFromTime b"
    "DateFromTime a = DateFromTime b" "WeekDay a = WeekDay b"
proof -
  show y: "YearFromTime a = YearFromTime b" by (simp add: YearFromTime_def assms)
  have w: "DayWithinYear a = DayWithinYear b" by (simp add: DayWithinYear_def y assms)
  have l: "InLeapYear a = InLeapYear b" by (simp add: InLeapYear_def y)
  show m: "MonthFromTime a = MonthFromTime b" by (simp add: MonthFromTime_def w l)
  show "DateFromTime a = DateFromTime b" by (simp add: DateFromTime_def w l m)
  show "WeekDay a = WeekDay b" by (simp add: WeekDay_def assms)
qed

lemma toDateString_eq_iff:
  "(toDateString z a = toDateString z b) = (localDay z a = localDay z b)"
proof
  assume "toDateString z a = toDateString z b"
  then have "MakeDay (YearFromTime (LocalTime z a)) (MonthFromTime (LocalTime z a))
                (DateFromTime (LocalTime z a))
           = MakeDay (YearFromTime (LocalTime z b)) (MonthFromTime (LocalTime z b))
                (DateFromTime (LocalTime z b))"
    by (simp add: toDateString_def Let_def)
  then show "localDay z a = localDay z b" by (simp add: Day_MakeDay localDay_def)
next
  assume "localDay z a = localDay z b"
  then have "Day (LocalTime z a) = Day (LocalTime z b)" by (simp add: localDay_def)
  from Day_fields [OF this] show "toDateString z a = toDateString z b"
    by (simp add: toDateString_def Let_def)
qed

lemma localDay_yesterday:
  assumes "wall_clock_day_kept z"
  shows "localDay z (setDate z now (getDate z now - 1)) = localDay z now - 1"
proof -
  let ?lt = "LocalTime z now"
  let ?lt' = "MakeDate (Day ?lt - 1) (TimeWithinDay ?lt)"
  have "MakeDay (YearFromTime ?lt) (MonthFromTime ?lt) (DateFromTime ?lt - 1)
      = MakeDay (YearFromTime ?lt) (MonthFromTime ?lt) (DateFromTime ?lt) - 1"
    by (simp add: MakeDay_def Let_def)
  then have md: "MakeDay (YearFromTime ?lt) (MonthFromTime ?lt) (DateFromTime ?lt - 1) = Day ?lt - 1"
    by (simp add: Day_MakeDay)
  have sd: "setDate z now (getDate z now - 1) = UTC z ?lt'"
    by (simp add: setDate_def getDate_def Let_def md)
  have "Day ?lt' = Day ?lt - 1"
    by (simp add: Day_def MakeDate_def TimeWithinDay_def msPerDay_def)
  moreover have "Day (LocalTime z (UTC z ?lt')) = Day ?lt'"
    using assms by (simp add: wall_clock_day_kept_def)
  ultimately show ?thesis by (simp only: sd localDay_def)
qed

lemma toLocaleDateString_fields:
  "toLocaleDateString fmt z t
     = fmt (WeekDay (LocalTime z t)) (MonthFromTime (LocalTime z t)) (DateFromTime (LocalTime z t))"
  by (simp add: toLocaleDateString_def Let_def)

lemma groupKey_by_day:
  assumes "wall_clock_day_kept z"
  shows "groupKey fmt z now1 now2 e =
     (if localDay z (timestamp e) = localDay z now1 then ''Today''
      else if localDay z (timestamp e) = localDay z now2 - 1 then ''Yesterday''
      else toLocaleDateString fmt z (timestamp e))"
  by (simp add: groupKey_def Let_def toDateString_eq_iff localDay_yesterday [OF assms])

lemma groupKey_same_day:
  assumes "wall_clock_day_kept z" and "localDay z (timestamp a) = localDay z (timestamp b)"
  shows "groupKey fmt z now1 now2 a = groupKey fmt z now1 now2 b"
proof -
  have "Day (LocalTime z (timestamp a)) = Day (LocalTime z (timestamp b))"
    using assms(2) by (simp add: localDay_def)
  from Day_fields [OF this]
  have "toLocaleDateString fmt z (timestamp a) = toLocaleDateString fmt z (timestamp b)"
    by (simp add: toLocaleDateString_def Let_def)
  then show ?thesis by (simp add: groupKey_by_day [OF assms(1)] assms(2))
qed

lemma groupKey_same_readings:
  assumes "wall_clock_day_kept z" and "localDay z now1 = localDay z r" "localDay z now2 = localDay z r"
  shows "groupKey fmt z now1 now2 e = groupKey fmt z r r e"
  by (simp add: groupKey_by_day [OF assms(1)] assms(2,3))

lemma orderedKey_groupKey: "orderedKey fmt z now1 now2 e = groupKey fmt z now1 now2 e"
  by (simp add: orderedKey_def groupKey_def Let_def)

section \<open>Grouping: the two passes under a clock that stays on one day\<close>

text \<open>
  While the readings of the clock lie on one calendar day, both passes compute for every
  entry the key that the first reading gives; the first pass then leaves under each key
  the entries with that key, and the rendering finds every key it asks for.
\<close>

lemma map_orderedKey_one_day:
  assumes "wall_clock_day_kept z"
    and "\<forall>k. c \<le> k \<and> k < c + 2 * length es \<longrightarrow> localDay z (clock k) = localDay z r"
  shows "map_orderedKey fmt z clock c es = map (groupKey fmt z r r) es"
  using assms(2)
proof (induction es arbitrary: c)
  case Nil
  show ?case by simp
next
  case (Cons e es)
  have "localDay z (clock c) = localDay z r" "localDay z (clock (Suc c)) = localDay z r"
    using Cons.prems by simp_all
  then have "orderedKey fmt z (clock c) (clock (Suc c)) e = groupKey fmt z r r e"
    unfolding orderedKey_groupKey by (rule groupKey_same_readings [OF assms(1)])
  moreover have "map_orderedKey fmt z clock (c + 2) es = map (groupKey fmt z r r) es"
    using Cons.prems by (intro Cons.IH) simp
  ultimately show ?case by simp
qed

lemma forEach_one_day:
  assumes "wall_clock_day_kept z"
    and "\<forall>k. c \<le> k \<and> k < c + 2 * length es \<longrightarrow> localDay z (clock k) = localDay z r"
  shows "foldl (forEach_step fmt z clock) (g, c) es
       = (foldl (group_step (groupKey fmt z r r)) g es, c + 2 * length es)"
  using assms(2)
proof (induction es arbitrary: g c)
  case Nil
  show ?case by simp
next
  case (Cons e es)
  have "localDay z (clock c) = localDay z r" "localDay z (clock (Suc c)) = localDay z r"
    using Cons.prems by simp_all
  then have "groupKey fmt z (clock c) (clock (Suc c)) e = groupKey fmt z r r e"
    by (rule groupKey_same_readings [OF assms(1)])
  then have step: "forEach_step fmt z clock (g, c) e
      = (group_step (groupKey fmt z r r) g e, c + 2)"
    by (simp add: forEach_step_def group_step_def)
  have "foldl (forEach_step fmt z clock) (group_step (groupKey fmt z r r) g e, c + 2) es
      = (foldl (group_step (groupKey fmt z r r)) (group_step (groupKey fmt z r r) g e) es,
         c + 2 + 2 * length es)"
    using Cons.prems by (intro Cons.IH) simp
  then show ?case by (simp add: step)
qed

lemma bucket_eq:
  assumes "wall_clock_day_kept z" and "one_day_clock z clock (length es)"
  shows "bucket fmt z clock es
     = Some (map (\<lambda>k. (k, filter (\<lambda>e. groupKey fmt z (clock 0) (clock 0) e = k) es))
              (from_set (map (groupKey fmt z (clock 0) (clock 0)) es)))"
proof -
  let ?f = "groupKey fmt z (clock 0) (clock 0)"
  have all: "\<forall>k < 4 * length es. localDay z (clock k) = localDay z (clock 0)"
    using assms(2) by (simp add: one_day_clock_def)
  have p1: "groupEntriesByDate fmt z clock 0 es
      = (foldl (group_step ?f) Map.empty es, 2 * length es)"
    unfolding groupEntriesByDate_def
    using forEach_one_day [OF assms(1), of 0 es clock "clock 0" fmt Map.empty] all by simp
  have p2: "orderedKeys fmt z clock (2 * length es) es = from_set (map ?f es)"
    unfolding orderedKeys_def
    using map_orderedKey_one_day [OF assms(1), of "2 * length es" es clock "clock 0" fmt] all
    by simp
  have "render_groups (foldl (group_step ?f) Map.empty es) (from_set (map ?f es))
      = Some (map (\<lambda>k. (k, filter (\<lambda>e. ?f e = k) es)) (from_set (map ?f es)))"
    by (rule render_groups_total) (auto simp: foldl_group_step)
  then show ?thesis by (simp add: bucket_def p1 p2)
qed

section \<open>The en-US locale tells the dates of a year apart\<close>

text \<open>
  No weekday name is the beginning of another, nor is any month name, and a number
  below 100 is read back from its digits.
\<close>

lemma weekday_name_inj:
  assumes "0 \<le> w" "w \<le> 6" "0 \<le> w'" "w' \<le> 6"
    and "weekday_name w @ r = weekday_name w' @ r'"
  shows "w = w' \<and> r = r'"
proof -
  have "w = 0 \<or> w = 1 \<or> w = 2 \<or> w = 3 \<or> w = 4 \<or> w = 5 \<or> w = 6"
    using assms(1,2) by presburger
  moreover have "w' = 0 \<or> w' = 1 \<or> w' = 2 \<or> w' = 3 \<or> w' = 4 \<or> w' = 5 \<or> w' = 6"
    using assms(3,4) by presburger
  ultimately show ?thesis using assms(5)
    by (elim disjE) (simp_all add: weekday_name_def)
qed

lemma month_name_inj:
  assumes "0 \<le> m" "m \<le> 11" "0 \<le> m'" "m' \<le> 11"
    and "month_name m @ r = month_name m' @ r'"
  shows "m = m' \<and> r = r'"
proof -
  have "m = 0 \<or> m = 1 \<or> m = 2 \<or> m = 3 \<or> m = 4 \<or> m = 5 \<or> m = 6 \<or> m = 7 \<or> m = 8
      \<or> m = 9 \<or> m = 10 \<or> m = 11"
    using assms(1,2) by presburger
  moreover have "m' = 0 \<or> m' = 1 \<or> m' = 2 \<or> m' = 3 \<or> m' = 4 \<or> m' = 5 \<or> m' = 6 \<or> m' = 7
      \<or> m' = 8 \<or> m' = 9 \<or> m' = 10 \<or> m' = 11"
    using assms(3,4) by presburger
  ultimately show ?thesis using assms(5)
    by (elim disjE) (simp_all add: month_name_def)
qed

lemma digit_inj:
  assumes "0 \<le> a" "a \<le> 9" "0 \<le> b" "b \<le> 9" "digit a = digit b"
  shows "a = b"
proof -
  have "a = 0 \<or> a = 1 \<or> a = 2 \<or> a = 3 \<or> a = 4 \<or> a = 5 \<or> a = 6 \<or> a = 7 \<or> a = 8 \<or> a = 9"
    using assms(1,2) by presburger
  moreover have "b = 0 \<or> b = 1 \<or> b = 2 \<or> b = 3 \<or> b = 4 \<or> b = 5 \<or> b = 6 \<or> b = 7 \<or> b = 8 \<or> b = 9"
    using assms(3,4) by presburger
  ultimately show ?thesis using assms(5)
    by (elim disjE) (simp_all add: digit_def)
qed

lemma decimal_inj:
  assumes "0 \<le> d" "d \<le> 99" "0 \<le> d'" "d' \<le> 99" "decimal d = decimal d'"
  shows "d = d'"
proof (cases "d < 10")
  case True
  then have "d' < 10" using assms(5) by (auto simp: decimal_def split: if_splits)
  with True assms show ?thesis by (auto simp: decimal_def intro: digit_inj)
next
  case False
  then have f': "\<not> d' < 10" using assms(5) by (auto simp: decimal_def split: if_splits)
  have r: "0 \<le> d div 10" "d div 10 \<le> 9" "0 \<le> d mod 10" "d mod 10 \<le> 9"
    "0 \<le> d' div 10" "d' div 10 \<le> 9" "0 \<le> d' mod 10" "d' mod 10 \<le> 9"
    using assms(1-4) by simp_all
  from False f' assms(5)
  have "digit (d div 10) = digit (d' div 10)" "digit (d mod 10) = digit (d' mod 10)"
    by (simp_all add: decimal_def)
  then have "d div 10 = d' div 10" "d mod 10 = d' mod 10"
    using r by (auto intro: digit_inj)
  then show ?thesis by (metis mult_div_mod_eq)
qed

lemma separates_en_US: "separates en_US"
  unfolding separates_def
proof (intro allI impI)
  fix w m d w' m' d' :: int
  assume a: "0 \<le> w \<and> w \<le> 6 \<and> 0 \<le> m \<and> m \<le> 11 \<and> 1 \<le> d \<and> d \<le> 31 \<and>
        0 \<le> w' \<and> w' \<le> 6 \<and> 0 \<le> m' \<and> m' \<le> 11 \<and> 1 \<le> d' \<and> d' \<le> 31 \<and>
        en_US w m d = en_US w' m' d'"
  then have "weekday_name w @ ('', '' @ month_name m @ '' '' @ decimal d)
           = weekday_name w' @ ('', '' @ month_name m' @ '' '' @ decimal d')"
    by (simp add: en_US_def)
  with a have 1: "w = w'"
    and "'', '' @ month_name m @ '' '' @ decimal d = '', '' @ month_name m' @ '' '' @ decimal d'"
    using weekday_name_inj [of w w'] by blast+
  then have "month_name m @ ('' '' @ decimal d) = month_name m' @ ('' '' @ decimal d')"
    by simp
  with a have 2: "m = m'" and "'' '' @ decimal d = '' '' @ decimal d'"
    using month_name_inj [of m m'] by blast+
  then have "decimal d = decimal d'" by simp
  with a have "d = d'" using decimal_inj [of d d'] by simp
  with 1 2 show "w = w' \<and> m = m' \<and> d = d'" by simp
qed

section \<open>Negotiating the encoding\<close>

lemma select_loop_find:
  "select_loop supp ts sel = (case find supp ts of None \<Rightarrow> sel | Some t \<Rightarrow> t)"
  by (induction ts) simp_all

lemma find_mimeTypes_nonempty: "find supp mimeTypes \<noteq> Some []"
  by (simp add: mimeTypes_def)

lemma recorder_options_find: "recorder_options supp = find supp mimeTypes"
  using find_mimeTypes_nonempty [of supp]
  by (cases "find supp mimeTypes")
     (simp_all add: recorder_options_def selectedMimeType_def select_loop_find)

text \<open>
  Claim C8. The options handed to the recorder name the first encoding of the list
  audio/webm;codecs=opus, audio/webm, audio/mp4, audio/aac, audio/ogg that the device
  supports, and are absent when it supports none; the recorder then reports that
  encoding, or the device's default one. The negotiation is a total function of the
  device: it has no failing branch, and the recording state is reached with the
  negotiated encoding in \<open>mimeTypeRef\<close>.
\<close>

theorem negotiation_first_supported:
  "recorder_options (isTypeSupported dev)
     = find (isTypeSupported dev)
         [''audio/webm;codecs=opus'', ''audio/webm'', ''audio/mp4'', ''audio/aac'', ''audio/ogg'']
   \<and> recorder_mimeType dev (recorder_options (isTypeSupported dev))
     = (case find (isTypeSupported dev)
              [''audio/webm;codecs=opus'', ''audio/webm'', ''audio/mp4'', ''audio/aac'', ''audio/ogg'']
        of Some t \<Rightarrow> t | None \<Rightarrow> defaultMimeType dev)
   \<and> mimeTypeRef (recording dev n) = negotiated_mimeType dev"
proof -
  have "recorder_options (isTypeSupported dev) = find (isTypeSupported dev) mimeTypes"
    by (rule recorder_options_find)
  moreover have "mimeTypeRef (recording dev n) = negotiated_mimeType dev"
    by (simp add: recording_def rec_run_def initial_recorder_def startRecording_resume_def)
  ultimately show ?thesis
    by (simp add: recorder_mimeType_def mimeTypes_def)
qed

section \<open>Releasing the stream and the timer\<close>

lemma stop_track_replicate:
  "map stop_track (replicate n \<lparr>ended = b, stop_calls = c\<rparr>)
     = replicate n \<lparr>ended = True, stop_calls = Suc c\<rparr>"
  by (simp add: stop_track_def)














text \<open>
  Two ways in which resources stay held, outside the sessions considered below: the
  component is closed before the microphone is granted, or the constructor of the
  recorder throws after the stream was granted (the stream is then in no ref).
\<close>

lemma unmount_before_grant_keeps_stream:
  "map ended (tracks (rec_run demo_device initial_recorder [Mount, ClickCancel, Unmount, Resolve (Started 1)]))
     = [False]
   \<and> timer_running (rec_run demo_device initial_recorder [Mount, ClickCancel, Unmount, Resolve (Started 1)])"
  by (simp add: rec_run_def initial_recorder_def startRecording_resume_def tracks_def
      live_track_def stopRecordingCleanup_def Let_def)

lemma constructor_throw_keeps_stream:
  "map ended (tracks (rec_run demo_device initial_recorder [Mount, Resolve (ConstructorThrows 1), Unmount]))
     = [False]"
  by (simp add: rec_run_def initial_recorder_def startRecording_resume_def tracks_def
      live_track_def stopRecordingCleanup_def Let_def)



section \<open>Zones whose clock changes do not reach across midnight\<close>

text \<open>
  A zone of one offset is such a zone, and so is the sample zone with its change to
  daylight saving time: the skipped hour from 02:00 to 03:00 is taken for the hour from
  03:00 to 04:00 of the same day.
\<close>

lemma fixed_zone_day_kept: "wall_clock_day_kept (fixed_zone off)"
  by (simp add: wall_clock_day_kept_def LocalTime_def UTC_def fixed_zone_def)

lemma Day_mono: "a \<le> b \<Longrightarrow> Day a \<le> Day b"
  by (simp add: Day_def msPerDay_def zdiv_mono1)

lemma fixed_zone_never_back: "days_never_go_back (fixed_zone off)"
  by (simp add: days_never_go_back_def localDay_def LocalTime_def fixed_zone_def Day_mono)

lemma Day_between: "q * msPerDay \<le> x \<Longrightarrow> x < (q + 1) * msPerDay \<Longrightarrow> Day x = q"
proof -
  assume a: "q * msPerDay \<le> x" "x < (q + 1) * msPerDay"
  have e: "x = msPerDay * q + (x - q * msPerDay)" by simp
  have "0 \<le> x - q * msPerDay" "x - q * msPerDay < msPerDay"
    using a by (simp_all add: algebra_simps)
  from int_div_pos_eq [OF e this] show ?thesis by (simp add: Day_def)
qed

lemma new_york_day_kept: "wall_clock_day_kept new_york"
  unfolding wall_clock_day_kept_def
proof
  fix lt :: int
  consider "lt < 1710036000000" | "1710036000000 \<le> lt" "lt < 1710039600000"
    | "1710039600000 \<le> lt" by linarith
  then show "Day (LocalTime new_york (UTC new_york lt)) = Day lt"
  proof cases
    case 1
    then have "LocalTime new_york (UTC new_york lt) = lt"
      by (simp add: LocalTime_def UTC_def new_york_def)
    then show ?thesis by simp
  next
    case 2
    then have l: "LocalTime new_york (UTC new_york lt) = lt + 3600000"
      by (simp add: LocalTime_def UTC_def new_york_def)
    have "Day lt = 19792"
      using 2 by (intro Day_between) (simp_all add: msPerDay_def)
    moreover have "Day (lt + 3600000) = 19792"
      using 2 by (intro Day_between) (simp_all add: msPerDay_def)
    ultimately show ?thesis by (simp add: l)
  next
    case 3
    then have "LocalTime new_york (UTC new_york lt) = lt"
      by (simp add: LocalTime_def UTC_def new_york_def)
    then show ?thesis by simp
  qed
qed

lemma new_york_never_back: "days_never_go_back new_york"
  unfolding days_never_go_back_def localDay_def
proof (intro allI impI)
  fix t t' :: int
  assume "t \<le> t'"
  then have "LocalTime new_york t \<le> LocalTime new_york t'"
    by (simp add: LocalTime_def new_york_def)
  then show "Day (LocalTime new_york t) \<le> Day (LocalTime new_york t')" by (rule Day_mono)
qed

lemma ticking_day: "k < 16 \<Longrightarrow> localDay new_york (ticking k) = 19793"
  unfolding localDay_def
  by (rule Day_between) (simp_all add: LocalTime_def new_york_def ticking_def msPerDay_def)

lemma ticking_one_day: "one_day_clock new_york ticking 4"
  by (simp add: one_day_clock_def ticking_day)

section \<open>Grouping: the claims\<close>

lemma same_year_month_date:
  assumes "YearFromTime a = YearFromTime b" "MonthFromTime a = MonthFromTime b"
    "DateFromTime a = DateFromTime b"
  shows "Day a = Day b"
  using Day_MakeDay [of a] Day_MakeDay [of b] assms by simp

lemma sorted_wrt_concat_groups:
  "sorted_wrt P (concat xss) \<Longrightarrow> sorted_wrt (\<lambda>g h. \<forall>a \<in> set g. \<forall>b \<in> set h. P a b) xss"
  by (induction xss) (auto simp: sorted_wrt_append)

text \<open>
  The two passes read the clock for themselves. When midnight falls between them, the
  first pass files an entry of the old day under "Today", the second asks for "Yesterday",
  and the rendering throws.
\<close>

lemma bucket_across_midnight_throws:
  "bucket en_US utc midnight_clock [entry_2024_03_05] = None"
  by code_simp

text \<open>
  Claim C1, as stated, fails: the key of a date that is neither today nor yesterday shows
  no year, so Tuesday 5 March 2024 and Tuesday 5 March 2019 share the key
  "Tuesday, March 5". With an entry of Monday 4 March 2024 between them the sequence is
  sorted, yet (in UTC, the clock standing at 1 June 2024) the first group takes the first
  and the third entry, and the groups put together are not the sequence.
\<close>

theorem bucket_merges_years_counterexample:
  "newest_first [entry_2024_03_05, entry_2024_03_04, entry_2019_03_05]
   \<and> bucket en_US utc (steady june_1st_2024)
         [entry_2024_03_05, entry_2024_03_04, entry_2019_03_05]
       = Some [(''Tuesday, March 5'', [entry_2024_03_05, entry_2019_03_05]),
               (''Monday, March 4'', [entry_2024_03_04])]
   \<and> concat (map snd [(''Tuesday, March 5'', [entry_2024_03_05, entry_2019_03_05]),
                         (''Monday, March 4'', [entry_2024_03_04])])
       \<noteq> [entry_2024_03_05, entry_2024_03_04, entry_2019_03_05]"
  by code_simp

text \<open>
  Claim C1, amended. In a time zone whose clock changes do not reach across midnight, and
  with all readings of the clock during the render on one calendar day, for every entry
  sequence sorted by timestamp descending in which no two entries on different calendar
  days share a key, the rendering succeeds; its groups put together in order are the
  sequence itself; the keys are pairwise distinct and stand in the order of their first
  occurrence; every entry of an earlier group is at least as recent as every entry of a
  later one; and every group is not empty, holds entries of its key only, and is a block
  of consecutive entries of the sequence. The keys are written with the first reading
  of the clock; with the clock on one day every callback computes the same keys.
\<close>

theorem bucket_partitions_sorted_entries:
  assumes "newest_first es"
    and "wall_clock_day_kept z" and "days_never_go_back z"
    and "one_day_clock z clock (length es)"
    and "\<forall>a \<in> set es. \<forall>b \<in> set es.
           groupKey fmt z (clock 0) (clock 0) a = groupKey fmt z (clock 0) (clock 0) b \<longrightarrow>
           localDay z (timestamp a) = localDay z (timestamp b)"
  shows "\<exists>gs. bucket fmt z clock es = Some gs
     \<and> concat (map snd gs) = es
     \<and> distinct (map fst gs)
     \<and> map fst gs = rev (remdups (rev (map (groupKey fmt z (clock 0) (clock 0)) es)))
     \<and> sorted_wrt (\<lambda>g h. \<forall>a \<in> set (snd g). \<forall>b \<in> set (snd h). timestamp b \<le> timestamp a) gs
     \<and> (\<forall>(k, g) \<in> set gs.
           g \<noteq> [] \<and> (\<forall>e \<in> set g. groupKey fmt z (clock 0) (clock 0) e = k)
           \<and> (\<exists>pre post. es = pre @ g @ post))"
proof -
  define f where "f = groupKey fmt z (clock 0) (clock 0)"
  define d where "d = (\<lambda>e::JournalEntry. localDay z (timestamp e))"
  define ks where "ks = from_set (map f es)"
  define gs where "gs = map (\<lambda>k. (k, filter (\<lambda>e. f e = k) es)) ks"
  have b: "bucket fmt z clock es = Some gs"
    by (simp add: bucket_eq [OF assms(2,4)] gs_def ks_def f_def)
  have mono: "\<And>a b. a \<le> b \<Longrightarrow> localDay z a \<le> localDay z b"
    using assms(3) by (simp add: days_never_go_back_def)
  have srt: "sorted_wrt (\<lambda>a b. d b \<le> d a) es"
    using assms(1) unfolding newest_first_def d_def
    by (rule sorted_wrt_mono_rel [rotated]) (simp add: mono)
  have eqv: "\<forall>a \<in> set es. \<forall>b \<in> set es. (f a = f b) = (d a = d b)"
    using assms(5) groupKey_same_day [OF assms(2)] unfolding f_def d_def by blast
  have fst_gs: "map fst gs = ks" by (simp add: gs_def comp_def)
  have snd_gs: "map snd gs = map (\<lambda>k. filter (\<lambda>e. f e = k) es) ks"
    by (simp add: gs_def comp_def)
  have cc: "concat (map snd gs) = es"
    unfolding snd_gs ks_def using groups_concat [OF srt eqv] by blast
  have dist: "distinct (map fst gs)" by (simp add: fst_gs ks_def)
  have ord: "map fst gs = rev (remdups (rev (map f es)))"
    by (simp add: fst_gs ks_def from_set_first_occurrence)
  have each: "g \<noteq> [] \<and> (\<forall>e \<in> set g. f e = k) \<and> (\<exists>pre post. es = pre @ g @ post)"
    if "(k, g) \<in> set gs" for k g
  proof (intro conjI)
    from that have k: "k \<in> f ` set es" and g: "g = filter (\<lambda>e. f e = k) es"
      by (auto simp: gs_def ks_def)
    from k obtain e where "e \<in> set es" "f e = k" by auto
    then show "g \<noteq> []" by (auto simp: g filter_empty_conv)
    show "\<forall>e \<in> set g. f e = k" by (simp add: g)
    from that obtain as bs where "gs = as @ (k, g) # bs" by (meson split_list)
    then have "concat (map snd gs) = concat (map snd as) @ g @ concat (map snd bs)" by simp
    then show "\<exists>pre post. es = pre @ g @ post" unfolding cc by blast
  qed
  have "sorted_wrt (\<lambda>a b. timestamp b \<le> timestamp a) (concat (map snd gs))"
    using assms(1) by (simp add: cc newest_first_def)
  then have "sorted_wrt (\<lambda>g h. \<forall>a \<in> set g. \<forall>b \<in> set h. timestamp b \<le> timestamp a) (map snd gs)"
    by (rule sorted_wrt_concat_groups)
  then have rec: "sorted_wrt (\<lambda>g h. \<forall>a \<in> set (snd g). \<forall>b \<in> set (snd h).
        timestamp b \<le> timestamp a) gs"
    by (simp add: sorted_wrt_map)
  show ?thesis
    using b cc dist ord rec each unfolding f_def by blast
qed

lemma new_york_keys:
  "groupKey en_US new_york (ticking 0) (ticking 0) entry_march_10 = ''Yesterday''"
  "groupKey en_US new_york (ticking 0) (ticking 0) entry_march_9_late = ''Saturday, March 9''"
  "groupKey en_US new_york (ticking 0) (ticking 0) entry_march_9_evening = ''Saturday, March 9''"
  "groupKey en_US new_york (ticking 0) (ticking 0) entry_2024_03_05 = ''Tuesday, March 5''"
  by code_simp+

lemma new_york_days:
  "localDay new_york (timestamp entry_march_10) = 19792"
  "localDay new_york (timestamp entry_march_9_late) = 19791"
  "localDay new_york (timestamp entry_march_9_evening) = 19791"
  "localDay new_york (timestamp entry_2024_03_05) = 19787"
  by code_simp+

theorem bucket_partitions_sorted_entries_witness:
  "newest_first [entry_march_10, entry_march_9_late, entry_march_9_evening, entry_2024_03_05]
   \<and> map (groupKey en_US new_york (ticking 0) (ticking 0))
         [entry_march_10, entry_march_9_late, entry_march_9_evening, entry_2024_03_05]
       = [''Yesterday'', ''Saturday, March 9'', ''Saturday, March 9'', ''Tuesday, March 5'']
   \<and> (\<exists>gs. bucket en_US new_york ticking
               [entry_march_10, entry_march_9_late, entry_march_9_evening, entry_2024_03_05]
             = Some gs
          \<and> concat (map snd gs)
             = [entry_march_10, entry_march_9_late, entry_march_9_evening, entry_2024_03_05]
          \<and> distinct (map fst gs))"
proof -
  let ?es = "[entry_march_10, entry_march_9_late, entry_march_9_evening, entry_2024_03_05]"
  have s: "newest_first ?es"
    by (simp add: newest_first_def entry_march_10_def entry_march_9_late_def
        entry_march_9_evening_def entry_2024_03_05_def)
  have k: "map (groupKey en_US new_york (ticking 0) (ticking 0)) ?es
      = [''Yesterday'', ''Saturday, March 9'', ''Saturday, March 9'', ''Tuesday, March 5'']"
    by (simp add: new_york_keys)
  have "length ?es = 4" by simp
  then have c: "one_day_clock new_york ticking (length ?es)"
    by (simp only: ticking_one_day)
  have h: "\<forall>a \<in> set ?es. \<forall>b \<in> set ?es.
           groupKey en_US new_york (ticking 0) (ticking 0) a
             = groupKey en_US new_york (ticking 0) (ticking 0) b \<longrightarrow>
           localDay new_york (timestamp a) = localDay new_york (timestamp b)"
    by (simp add: new_york_keys new_york_days)
  from bucket_partitions_sorted_entries [OF s new_york_day_kept new_york_never_back c h] s k
  show ?thesis by blast
qed

section \<open>The key of an entry: the claims\<close>

lemma formatted_key:
  assumes "groupKey fmt z now1 now2 e \<notin> {''Today'', ''Yesterday''}"
  shows "groupKey fmt z now1 now2 e
     = fmt (WeekDay (LocalTime z (timestamp e))) (MonthFromTime (LocalTime z (timestamp e)))
           (DateFromTime (LocalTime z (timestamp e)))"
  using assms by (simp add: groupKey_def Let_def toLocaleDateString_fields split: if_splits)

lemma separates_fields:
  assumes "separates fmt"
    and "fmt (WeekDay a) (MonthFromTime a) (DateFromTime a)
       = fmt (WeekDay b) (MonthFromTime b) (DateFromTime b)"
  shows "MonthFromTime a = MonthFromTime b \<and> DateFromTime a = DateFromTime b"
proof -
  note r = WeekDay_range [of a] MonthFromTime_range [of a] DateFromTime_range [of a]
    WeekDay_range [of b] MonthFromTime_range [of b] DateFromTime_range [of b]
  from assms(1) [unfolded separates_def, rule_format,
      of "WeekDay a" "MonthFromTime a" "DateFromTime a" "WeekDay b" "MonthFromTime b" "DateFromTime b"]
  show ?thesis using r assms(2) by blast
qed

lemma june_keys:
  "groupKey en_US utc june_1st_2024 june_1st_2024 entry_2024_03_05 = ''Tuesday, March 5''"
  "groupKey en_US utc june_1st_2024 june_1st_2024 entry_2019_03_05 = ''Tuesday, March 5''"
  by code_simp+

lemma utc_days:
  "localDay utc (timestamp entry_2024_03_05) = 19787"
  "localDay utc (timestamp entry_2019_03_05) = 17960"
  by code_simp+

lemma new_york_years:
  "YearFromTime (LocalTime new_york (timestamp entry_march_9_late)) = 2024"
  "YearFromTime (LocalTime new_york (timestamp entry_2024_03_05)) = 2024"
  by code_simp+

lemma new_york_keys_two_readings:
  "groupKey en_US new_york (ticking 2) (ticking 3) entry_march_9_late = ''Saturday, March 9''"
  "groupKey en_US new_york (ticking 2) (ticking 3) entry_2024_03_05 = ''Tuesday, March 5''"
  by code_simp+

text \<open>
  Claim C2, as stated, fails in its second half: the key of a date that is neither today
  nor yesterday shows weekday, month and day of the month but no year, so two entries on
  different calendar dates can receive the same key. In UTC on 1 June 2024 the entries of
  Tuesday 5 March 2024 (day 19787) and of Tuesday 5 March 2019 (day 17960) are both
  keyed "Tuesday, March 5".
\<close>

theorem groupKey_shared_across_years_counterexample:
  "localDay utc (timestamp entry_2024_03_05) = 19787
   \<and> localDay utc (timestamp entry_2019_03_05) = 17960
   \<and> groupKey en_US utc june_1st_2024 june_1st_2024 entry_2024_03_05 = ''Tuesday, March 5''
   \<and> groupKey en_US utc june_1st_2024 june_1st_2024 entry_2019_03_05 = ''Tuesday, March 5''"
  by (simp add: utc_days june_keys)

text \<open>
  Claim C2, amended. In a time zone that takes a wall-clock time for an instant of its
  own calendar day, and with the two readings of the clock in the callback on one
  calendar day (the current date), the key of an entry is "Today" when its timestamp
  lies on that local calendar day, "Yesterday" when it lies on the day before, and
  otherwise what the locale prints for the weekday, the month and the day of the month
  of its local date, without the year. Two entries on different calendar days of the
  same calendar year, neither keyed "Today" nor "Yesterday", never receive the same key
  when the locale prints different triples of weekday, month and day differently.
\<close>

theorem groupKey_relative_to_now:
  assumes "wall_clock_day_kept z" and "localDay z now2 = localDay z now1"
  shows "groupKey fmt z now1 now2 e =
     (if localDay z (timestamp e) = localDay z now1 then ''Today''
      else if localDay z (timestamp e) = localDay z now1 - 1 then ''Yesterday''
      else fmt (WeekDay (LocalTime z (timestamp e))) (MonthFromTime (LocalTime z (timestamp e)))
               (DateFromTime (LocalTime z (timestamp e))))
   \<and> (separates fmt
        \<and> YearFromTime (LocalTime z (timestamp a)) = YearFromTime (LocalTime z (timestamp b))
        \<and> localDay z (timestamp a) \<noteq> localDay z (timestamp b)
        \<and> groupKey fmt z now1 now2 a \<notin> {''Today'', ''Yesterday''}
        \<and> groupKey fmt z now1 now2 b \<notin> {''Today'', ''Yesterday''}
        \<longrightarrow> groupKey fmt z now1 now2 a \<noteq> groupKey fmt z now1 now2 b)"
proof (intro conjI impI)
  show "groupKey fmt z now1 now2 e =
     (if localDay z (timestamp e) = localDay z now1 then ''Today''
      else if localDay z (timestamp e) = localDay z now1 - 1 then ''Yesterday''
      else fmt (WeekDay (LocalTime z (timestamp e))) (MonthFromTime (LocalTime z (timestamp e)))
               (DateFromTime (LocalTime z (timestamp e))))"
    by (simp add: groupKey_by_day [OF assms(1)] assms(2) toLocaleDateString_fields)
next
  let ?a = "LocalTime z (timestamp a)" and ?b = "LocalTime z (timestamp b)"
  assume h: "separates fmt
        \<and> YearFromTime ?a = YearFromTime ?b
        \<and> localDay z (timestamp a) \<noteq> localDay z (timestamp b)
        \<and> groupKey fmt z now1 now2 a \<notin> {''Today'', ''Yesterday''}
        \<and> groupKey fmt z now1 now2 b \<notin> {''Today'', ''Yesterday''}"
  show "groupKey fmt z now1 now2 a \<noteq> groupKey fmt z now1 now2 b"
  proof
    assume "groupKey fmt z now1 now2 a = groupKey fmt z now1 now2 b"
    then have "fmt (WeekDay ?a) (MonthFromTime ?a) (DateFromTime ?a)
             = fmt (WeekDay ?b) (MonthFromTime ?b) (DateFromTime ?b)"
      using h formatted_key [of fmt z now1 now2 a] formatted_key [of fmt z now1 now2 b] by simp
    with h have "MonthFromTime ?a = MonthFromTime ?b \<and> DateFromTime ?a = DateFromTime ?b"
      using separates_fields by blast
    with h have "Day ?a = Day ?b" using same_year_month_date by blast
    with h show False by (simp add: localDay_def)
  qed
qed

theorem groupKey_relative_to_now_witness:
  "localDay new_york (ticking 2) = 19793
   \<and> localDay new_york (ticking 3) = 19793
   \<and> localDay new_york (timestamp entry_march_10) = 19792
   \<and> groupKey en_US new_york (ticking 2) (ticking 3) entry_march_10 = ''Yesterday''
   \<and> groupKey en_US new_york (ticking 2) (ticking 3) entry_march_9_late = ''Saturday, March 9''
   \<and> groupKey en_US new_york (ticking 2) (ticking 3) entry_march_9_late
       \<noteq> groupKey en_US new_york (ticking 2) (ticking 3) entry_2024_03_05"
proof -
  have t: "localDay new_york (ticking 2) = 19793" "localDay new_york (ticking 3) = 19793"
    by (simp_all add: ticking_day)
  then have same: "localDay new_york (ticking 3) = localDay new_york (ticking 2)" by simp
  note inst = groupKey_relative_to_now [OF new_york_day_kept same, of en_US]
  from inst [of entry_march_10] t
  have y: "groupKey en_US new_york (ticking 2) (ticking 3) entry_march_10 = ''Yesterday''"
    by (simp add: new_york_days)
  have k: "groupKey en_US new_york (ticking 2) (ticking 3) entry_march_9_late
             \<notin> {''Today'', ''Yesterday''}"
    "groupKey en_US new_york (ticking 2) (ticking 3) entry_2024_03_05
             \<notin> {''Today'', ''Yesterday''}"
    by (simp_all add: new_york_keys_two_readings)
  have d: "localDay new_york (timestamp entry_march_9_late)
         \<noteq> localDay new_york (timestamp entry_2024_03_05)"
    by (simp add: new_york_days)
  have yr: "YearFromTime (LocalTime new_york (timestamp entry_march_9_late))
         = YearFromTime (LocalTime new_york (timestamp entry_2024_03_05))"
    by (simp add: new_york_years)
  from inst [of entry_march_10 entry_march_9_late entry_2024_03_05] separates_en_US k d yr
  have "groupKey en_US new_york (ticking 2) (ticking 3) entry_march_9_late
      \<noteq> groupKey en_US new_york (ticking 2) (ticking 3) entry_2024_03_05"
    by blast
  with t y show ?thesis by (simp add: new_york_days new_york_keys_two_readings)
qed

end
